theory Spec2Isabelle
  imports Main "HOL-Library.Multiset"
begin

section \<open>csv\_to\_excel.py: splitting a CSV file into spreadsheet parts\<close>

text \<open>
  A shallow embedding of \<^verbatim>\<open>src/csv_to_excel.py\<close>. A DataFrame is its list of column names
  and the list of its rows in order, a row being the list of its cells (of an arbitrary type
  \<open>'v\<close>); \<^verbatim>\<open>len(df)\<close> is the number of rows. Python's integers are \<open>int\<close>. A run is
  modelled by what it prints, the \<^verbatim>\<open>to_excel\<close> calls that it completes, in order, the
  spreadsheet files that these calls leave on disk, and its exit status. Every call inside the
  \<^verbatim>\<open>try\<close> of lines 26 to 83 can raise: the reader at any step of the loop,
  \<^verbatim>\<open>pd.concat\<close> and \<^verbatim>\<open>to_excel\<close> at every flush.
\<close>

subsection \<open>Formatting integers (f-strings)\<close>

definition digit_char :: "nat \<Rightarrow> char" where
  "digit_char d = ''0123456789'' ! d"

function str_nat :: "nat \<Rightarrow> string" where
  "str_nat n = (if n < 10 then [digit_char n] else str_nat (n div 10) @ [digit_char (n mod 10)])"
  by pat_completeness auto
termination
  by (relation "measure (\<lambda>n. n)") auto

declare str_nat.simps [simp del]

definition str_int :: "int \<Rightarrow> string" where
  "str_int i = (if i < 0 then CHR ''-'' # str_nat (nat (- i)) else str_nat (nat i))"

definition quoted :: "string \<Rightarrow> string" where
  "quoted s = [CHR 0x27] @ s @ [CHR 0x27]"

subsection \<open>Frames, sheets and the library calls\<close>

record 'v frame =
  columns :: "string list"
  rows :: "'v list list"

text \<open>
  A spreadsheet file as \<^verbatim>\<open>to_excel(..., index=False)\<close> writes it: one sheet, with the
  column names in its first row and one row for every row of the frame.
\<close>

record 'v sheet =
  header :: "string list"
  body :: "'v list list"

definition sheet_of :: "'v frame \<Rightarrow> 'v sheet" where
  "sheet_of df = \<lparr>header = columns df, body = rows df\<rparr>"

text \<open>
  The iterator returned by \<^verbatim>\<open>pd.read_csv(input_csv, chunksize=chunk_size, low_memory=False)\<close>:
  each step of the \<^verbatim>\<open>for\<close> loop either gets the next chunk, finds the iterator exhausted,
  or gets an exception (with its message) from the reader.
\<close>

datatype 'v csv_iterator =
    StopIteration
  | Raise string
  | Yield "'v frame" "'v csv_iterator"

text \<open>
  What the script takes from its environment and its libraries:
  \<^item> \<^verbatim>\<open>os.path.exists\<close> and the first component of \<^verbatim>\<open>os.path.splitext\<close>;
  \<^item> \<^verbatim>\<open>pd.read_csv\<close> with the path and the chunk size;
  \<^item> whether \<^verbatim>\<open>pd.concat\<close> raises on a list of frames (\<open>Some\<close> the message), and, for
    frames whose column names differ, the column names of the result and how a row of a frame
    is brought to them;
  \<^item> whether \<^verbatim>\<open>to_excel\<close> raises for a file name and a frame (\<open>Some\<close> the message: a
    directory that is missing or cannot be written, a full disk, a frame too large for a
    sheet).
\<close>

record 'v os =
  path_exists :: "string \<Rightarrow> bool"
  splitext_root :: "string \<Rightarrow> string"
  read_csv :: "string \<Rightarrow> int \<Rightarrow> 'v csv_iterator"
  concat_error :: "'v frame list \<Rightarrow> string option"
  joined_columns :: "string list list \<Rightarrow> string list"
  realign :: "string list \<Rightarrow> string list \<Rightarrow> 'v list \<Rightarrow> 'v list"
  to_excel_error :: "string \<Rightarrow> 'v frame \<Rightarrow> string option"

text \<open>An iterator that delivers the given chunks and is then exhausted.\<close>

fun yields :: "'v frame list \<Rightarrow> 'v csv_iterator" where
  "yields [] = StopIteration"
| "yields (c # cs) = Yield c (yields cs)"

text \<open>
  \<^verbatim>\<open>pd.concat(frames)\<close>: the rows of the frames, one frame after the other. Frames with the
  same column names keep them and their rows as they are; this is the only case in a run, where
  every chunk has the column names of the file's header line. Otherwise the result has the
  joined column names and every row is brought to them. An empty list is refused.
\<close>

definition pd_concat :: "'v os \<Rightarrow> 'v frame list \<Rightarrow> string + 'v frame" where
  "pd_concat os fs =
     (case fs of
        [] \<Rightarrow> Inl ''No objects to concatenate''
      | f # _ \<Rightarrow>
          (case concat_error os fs of
             Some e \<Rightarrow> Inl e
           | None \<Rightarrow>
               if list_all (\<lambda>g. columns g = columns f) fs then
                 Inr \<lparr>columns = columns f, rows = concat (map rows fs)\<rparr>
               else
                 (let cols = joined_columns os (map columns fs)
                  in Inr \<lparr>columns = cols,
                          rows = concat (map (\<lambda>g. map (realign os (columns g) cols) (rows g)) fs)\<rparr>)))"

subsection \<open>The state of a run\<close>

text \<open>
  The local variables of \<^verbatim>\<open>convert_csv_to_excel\<close>, what has been printed, the
  \<^verbatim>\<open>to_excel\<close> calls completed so far, and the spreadsheet files they have put on disk,
  by name.
\<close>

record 'v state =
  current_data :: "'v frame list"
  current_rows :: int
  file_counter :: int
  stdout :: "string list"
  files :: "(string \<times> 'v frame) list"
  disk :: "string \<rightharpoonup> 'v sheet"

text \<open>What a finished process leaves behind.\<close>

record 'v process =
  printed :: "string list"
  written :: "(string \<times> 'v frame) list"
  on_disk :: "string \<rightharpoonup> 'v sheet"
  exit_status :: int

definition output_filename :: "string \<Rightarrow> int \<Rightarrow> string" where
  "output_filename output_prefix n = output_prefix @ ''_part'' @ str_int n @ ''.xlsx''"

text \<open>
  \<^verbatim>\<open>df_part.to_excel(output_filename, index=False)\<close>: either the call raises and the disk
  stays as it is, or the file of this name now holds the sheet of the frame, replacing what a
  file of this name held before.
\<close>

definition to_excel :: "'v os \<Rightarrow> 'v frame \<Rightarrow> string \<Rightarrow> 'v state \<Rightarrow> string option \<times> 'v state" where
  "to_excel os df fname s =
     (case to_excel_error os fname df of
        Some e \<Rightarrow> (Some e, s)
      | None \<Rightarrow> (None, s\<lparr>files := files s @ [(fname, df)],
                          disk := (disk s)(fname \<mapsto> sheet_of df)\<rparr>))"

subsection \<open>The loop over the chunks (lines 41 to 69)\<close>

text \<open>
  One iteration of the loop body; the first component of the result is the message of the
  exception that ended it, if one did. The test \<^verbatim>\<open>len(df_part) > 1048576\<close> of line 55
  guards a \<^verbatim>\<open>pass\<close> and changes nothing, so it has no branch here.
\<close>

definition loop_body ::
  "'v os \<Rightarrow> string \<Rightarrow> int \<Rightarrow> 'v frame \<Rightarrow> 'v state \<Rightarrow> string option \<times> 'v state" where
  "loop_body os output_prefix rows_per_file chunk s =
     (let s1 = s\<lparr>current_data := current_data s @ [chunk],
                 current_rows := current_rows s + int (length (rows chunk))\<rparr>
      in if current_rows s1 \<ge> rows_per_file then
           (case pd_concat os (current_data s1) of
              Inl e \<Rightarrow> (Some e, s1)
            | Inr df_part \<Rightarrow>
                (let fname = output_filename output_prefix (file_counter s1);
                     s2 = s1\<lparr>stdout := stdout s1 @
                            [''Writing '' @ str_int (int (length (rows df_part))) @ '' rows to ''
                               @ quoted fname @ ''...'']\<rparr>
                 in case to_excel os df_part fname s2 of
                      (Some e, s3) \<Rightarrow> (Some e, s3)
                    | (None, s3) \<Rightarrow>
                        (None, s3\<lparr>stdout := stdout s3 @ [''Saved '' @ fname],
                                  current_data := [],
                                  current_rows := 0,
                                  file_counter := file_counter s3 + 1\<rparr>)))
         else (None, s1))"

text \<open>
  The \<^verbatim>\<open>for\<close> loop: the result is the state when the loop ends, with the message of the
  exception that ended it, if one did.
\<close>

fun for_chunks ::
  "'v os \<Rightarrow> string \<Rightarrow> int \<Rightarrow> 'v csv_iterator \<Rightarrow> 'v state \<Rightarrow> string option \<times> 'v state" where
  "for_chunks os output_prefix rows_per_file StopIteration s = (None, s)"
| "for_chunks os output_prefix rows_per_file (Raise e) s = (Some e, s)"
| "for_chunks os output_prefix rows_per_file (Yield chunk it) s =
     (case loop_body os output_prefix rows_per_file chunk s of
        (Some e, s') \<Rightarrow> (Some e, s')
      | (None, s') \<Rightarrow> for_chunks os output_prefix rows_per_file it s')"

text \<open>Lines 71 to 77: the remaining data is written when the list of chunks is not empty.\<close>

definition write_remaining :: "'v os \<Rightarrow> string \<Rightarrow> 'v state \<Rightarrow> string option \<times> 'v state" where
  "write_remaining os output_prefix s =
     (if current_data s \<noteq> [] then
        (case pd_concat os (current_data s) of
           Inl e \<Rightarrow> (Some e, s)
         | Inr df_part \<Rightarrow>
             (let fname = output_filename output_prefix (file_counter s);
                  s2 = s\<lparr>stdout := stdout s @
                         [''Writing remaining '' @ str_int (int (length (rows df_part)))
                            @ '' rows to '' @ quoted fname @ ''...'']\<rparr>
              in case to_excel os df_part fname s2 of
                   (Some e, s3) \<Rightarrow> (Some e, s3)
                 | (None, s3) \<Rightarrow> (None, s3\<lparr>stdout := stdout s3 @ [''Saved '' @ fname]\<rparr>)))
      else (None, s))"

subsection \<open>convert\_csv\_to\_excel and the command line\<close>

text \<open>Lines 16 to 18: without an explicit prefix, the input's name without its extension.\<close>

definition chosen_prefix :: "'v os \<Rightarrow> string \<Rightarrow> string option \<Rightarrow> string" where
  "chosen_prefix os input_csv output_prefix_arg =
     (case output_prefix_arg of None \<Rightarrow> splitext_root os input_csv | Some p \<Rightarrow> p)"

text \<open>Lines 81 to 83: the handler of the \<^verbatim>\<open>try\<close>.\<close>

definition except_handler :: "string \<Rightarrow> 'v state \<Rightarrow> 'v process" where
  "except_handler e s =
     \<lparr>printed = stdout s @ [''An error occurred: '' @ e],
      written = files s,
      on_disk = disk s,
      exit_status = 1\<rparr>"

definition convert_csv_to_excel :: "'v os \<Rightarrow> string \<Rightarrow> string option \<Rightarrow> int \<Rightarrow> 'v process" where
  "convert_csv_to_excel os input_csv output_prefix_arg rows_per_file =
     (if \<not> path_exists os input_csv then
        \<lparr>printed = [''Error: The file '' @ quoted input_csv @ '' does not exist.''],
         written = [],
         on_disk = Map.empty,
         exit_status = 1\<rparr>
      else
        (let output_prefix = chosen_prefix os input_csv output_prefix_arg;
             chunk_size = 50000;
             s0 = \<lparr>current_data = [], current_rows = 0, file_counter = 1,
                   stdout = [''Processing '' @ quoted input_csv @ ''...'',
                             ''Splitting into files of '' @ str_int rows_per_file
                               @ '' rows each to save RAM and fit in Excel...''],
                   files = [], disk = Map.empty\<rparr>
         in case for_chunks os output_prefix rows_per_file
                   (read_csv os input_csv chunk_size) s0 of
              (Some e, s) \<Rightarrow> except_handler e s
            | (None, s) \<Rightarrow>
                (case write_remaining os output_prefix s of
                   (Some e, s') \<Rightarrow> except_handler e s'
                 | (None, s') \<Rightarrow>
                     \<lparr>printed = stdout s' @ [''All conversions successful!''],
                      written = files s',
                      on_disk = disk s',
                      exit_status = 0\<rparr>)))"

text \<open>
  The script's entry point, after \<^verbatim>\<open>argparse\<close> has parsed the arguments: the positional
  path and the value of \<^verbatim>\<open>--rows\<close>, if the flag was given (the default is 500000).
\<close>

definition main :: "'v os \<Rightarrow> string \<Rightarrow> int option \<Rightarrow> 'v process" where
  "main os input_csv rows_arg =
     (let rows = (case rows_arg of None \<Rightarrow> 500000 | Some r \<Rightarrow> r)
      in if rows > 1000000 then
           (let p = convert_csv_to_excel os input_csv None 1000000
            in p\<lparr>printed := [''Warning: Excel cannot hold more than 1,048,576 rows per sheet.'',
                              ''Resetting rows limit to 1,000,000.''] @ printed p\<rparr>)
         else convert_csv_to_excel os input_csv None rows)"

subsection \<open>Auxiliary notions for the proofs\<close>

text \<open>
  The lists of chunks that a run passes to \<^verbatim>\<open>pd.concat\<close>, one list for every flush, as a
  function of the threshold, the chunks buffered so far and the iterator. A reader that raises
  leaves the buffered chunks unwritten. This is tied to the code by lemma \<open>run_writes\<close>.
\<close>

fun groups :: "int \<Rightarrow> 'v frame list \<Rightarrow> 'v csv_iterator \<Rightarrow> 'v frame list list" where
  "groups P buf StopIteration = (if buf = [] then [] else [buf])"
| "groups P buf (Raise e) = []"
| "groups P buf (Yield c it) =
     (if int (length (concat (map rows (buf @ [c])))) \<ge> P then (buf @ [c]) # groups P [] it
      else groups P (buf @ [c]) it)"

text \<open>The exception that ends the iteration, if one does.\<close>

fun end_error :: "'v csv_iterator \<Rightarrow> string option" where
  "end_error StopIteration = None"
| "end_error (Raise e) = Some e"
| "end_error (Yield c it) = end_error it"

text \<open>The same partition on the rows alone: the rows of every part.\<close>

fun parts :: "int \<Rightarrow> 'r list list \<Rightarrow> 'r list list \<Rightarrow> 'r list list" where
  "parts P buf [] = (if buf = [] then [] else [concat buf])"
| "parts P buf (c # cs) =
     (if int (length (concat (buf @ [c]))) \<ge> P then concat (buf @ [c]) # parts P [] cs
      else parts P (buf @ [c]) cs)"

text \<open>
  One flush of a list of chunks to part \<open>k\<close>, and the flushes of a list of such lists to the
  parts from \<open>k\<close> on, up to the first one that fails: the completed calls, and the message of the
  failure.
\<close>

definition write_one :: "'v os \<Rightarrow> string \<Rightarrow> int \<Rightarrow> 'v frame list \<Rightarrow> string + (string \<times> 'v frame)" where
  "write_one os pre k g =
     (case pd_concat os g of
        Inl e \<Rightarrow> Inl e
      | Inr df \<Rightarrow>
          (case to_excel_error os (output_filename pre k) df of
             Some e \<Rightarrow> Inl e
           | None \<Rightarrow> Inr (output_filename pre k, df)))"

fun write_groups ::
  "'v os \<Rightarrow> string \<Rightarrow> int \<Rightarrow> 'v frame list list \<Rightarrow> (string \<times> 'v frame) list \<times> string option" where
  "write_groups os pre k [] = ([], None)"
| "write_groups os pre k (g # gs) =
     (case write_one os pre k g of
        Inl e \<Rightarrow> ([], Some e)
      | Inr w \<Rightarrow> (w # fst (write_groups os pre (k + 1) gs),
                  snd (write_groups os pre (k + 1) gs)))"

text \<open>The disk after a list of completed calls.\<close>

fun put_all :: "(string \<times> 'v frame) list \<Rightarrow> (string \<rightharpoonup> 'v sheet) \<Rightarrow> (string \<rightharpoonup> 'v sheet)" where
  "put_all [] d = d"
| "put_all (w # ws) d = put_all ws (d(fst w \<mapsto> sheet_of (snd w)))"

text \<open>The running count agrees with the buffered chunks.\<close>

definition rows_ok :: "'v state \<Rightarrow> bool" where
  "rows_ok s = (current_rows s = int (length (concat (map rows (current_data s)))))"

text \<open>
  What reading with \<^verbatim>\<open>chunksize=n\<close> delivers: every chunk holds exactly \<open>n\<close> rows, except
  the last one, which holds at most \<open>n\<close>.
\<close>

fun fixed_size_units :: "nat \<Rightarrow> 'v frame list \<Rightarrow> bool" where
  "fixed_size_units n [] = True"
| "fixed_size_units n [c] = (length (rows c) \<le> n)"
| "fixed_size_units n (c # cs) = (length (rows c) = n \<and> fixed_size_units n cs)"

text \<open>The same on the rows alone.\<close>

fun fixed_size :: "nat \<Rightarrow> 'r list list \<Rightarrow> bool" where
  "fixed_size n [] = True"
| "fixed_size n [c] = (length c \<le> n)"
| "fixed_size n (c # cs) = (length c = n \<and> fixed_size n cs)"

text \<open>
  The spreadsheet files at the names of parts 1 to \<open>n\<close>, in this order (\<open>None\<close> where there
  is no such file).
\<close>

definition parts_on_disk :: "'v process \<Rightarrow> string \<Rightarrow> nat \<Rightarrow> 'v sheet option list" where
  "parts_on_disk p pre n = map (\<lambda>k. on_disk p (output_filename pre (int k))) [1..<Suc n]"

text \<open>
  A small environment for concrete runs: one existing file, whose reader delivers the given
  chunks, and library calls that do not fail; the prefix is the name up to its first dot.
\<close>

definition single_file_os :: "string \<Rightarrow> 'v frame list \<Rightarrow> 'v os" where
  "single_file_os path cs =
     \<lparr>path_exists = (\<lambda>p. p = path),
      splitext_root = takeWhile (\<lambda>c. c \<noteq> CHR ''.''),
      read_csv = (\<lambda>p n. yields cs),
      concat_error = (\<lambda>fs. None),
      joined_columns = concat,
      realign = (\<lambda>from to r. r),
      to_excel_error = (\<lambda>fname df. None)\<rparr>"

text \<open>A chunk with one column, and a chunk of exactly 50,000 rows.\<close>

definition chunk :: "nat list \<Rightarrow> nat frame" where
  "chunk xs = \<lparr>columns = [''id''], rows = map (\<lambda>x. [x]) xs\<rparr>"

definition full_chunk :: "nat frame" where
  "full_chunk = \<lparr>columns = [''id''], rows = replicate 50000 [0]\<rparr>"

text \<open>An iterator that delivers the given chunks and then fails with the given message.\<close>

fun yields_then_raises :: "'v frame list \<Rightarrow> string \<Rightarrow> 'v csv_iterator" where
  "yields_then_raises [] e = Raise e"
| "yields_then_raises (c # cs) e = Yield c (yields_then_raises cs e)"

text \<open>The loop followed by the trailing write, as lines 41 to 77 run them.\<close>

definition loop_then_rest ::
  "'v os \<Rightarrow> string \<Rightarrow> int \<Rightarrow> 'v csv_iterator \<Rightarrow> 'v state \<Rightarrow> string option \<times> 'v state" where
  "loop_then_rest os pre P it s =
     (case for_chunks os pre P it s of
        (Some e, s') \<Rightarrow> (Some e, s')
      | (None, s') \<Rightarrow> write_remaining os pre s')"

text \<open>The first failure of a run: of a flush, or else of the reader.\<close>

definition first_error :: "'v os \<Rightarrow> string \<Rightarrow> int \<Rightarrow> 'v csv_iterator \<Rightarrow> string option" where
  "first_error os pre P it =
     (case snd (write_groups os pre 1 (groups P [] it)) of
        Some e \<Rightarrow> Some e
      | None \<Rightarrow> end_error it)"

text \<open>The disk holds what the completed calls have put there.\<close>

definition disk_ok :: "'v state \<Rightarrow> bool" where
  "disk_ok s = (disk s = put_all (files s) Map.empty)"

text \<open>The frames of the parts with their file names, numbered from \<open>k\<close>.\<close>

fun name_frames :: "string \<Rightarrow> string list \<Rightarrow> int \<Rightarrow> 'v list list list \<Rightarrow> (string \<times> 'v frame) list" where
  "name_frames pre cols k [] = []"
| "name_frames pre cols k (r # rs) =
     (output_filename pre k, \<lparr>columns = cols, rows = r\<rparr>) # name_frames pre cols (k + 1) rs"

text \<open>
  The same environment where the directory \<^verbatim>\<open>ro\<close> cannot be written: \<^verbatim>\<open>to_excel\<close>
  raises for every file name in it.
\<close>

definition readonly_dir_os :: "string \<Rightarrow> 'v frame list \<Rightarrow> 'v os" where
  "readonly_dir_os path cs =
     (single_file_os path cs)
       \<lparr>to_excel_error := (\<lambda>fname df.
          if take 3 fname = ''ro/'' then Some ''[Errno 13] Permission denied'' else None)\<rparr>"

text \<open>The sheets of the completed calls, in the order of the calls.\<close>

definition sheets_written :: "'v process \<Rightarrow> 'v sheet list" where
  "sheets_written p = map (\<lambda>w. sheet_of (snd w)) (written p)"

section \<open>What a run writes\<close>

lemma pd_concat_rows:
  "pd_concat os fs = Inr df \<Longrightarrow> length (rows df) = length (concat (map rows fs))"
  by (auto simp: pd_concat_def Let_def length_concat comp_def
      split: list.splits option.splits if_splits)

lemma pd_concat_same:
  assumes "fs \<noteq> []" and "list_all (\<lambda>g. columns g = cols) fs" and "pd_concat os fs = Inr df"
  shows "df = \<lparr>columns = cols, rows = concat (map rows fs)\<rparr>"
proof -
  obtain f fs' where fs: "fs = f # fs'" using assms(1) by (cases fs) auto
  have f: "columns f = cols" using assms(2) fs by simp
  have "list_all (\<lambda>g. columns g = columns f) fs" using assms(2) f by simp
  then show ?thesis using assms(3) f fs
    by (auto simp: pd_concat_def split: option.splits)
qed

lemma pd_concat_single:
  "concat_error os [c] = None \<Longrightarrow> pd_concat os [c] = Inr c"
  by (simp add: pd_concat_def)

lemma loop_body_keep:
  assumes "rows_ok s"
    and "\<not> P \<le> int (length (concat (map rows (current_data s @ [c]))))"
  shows "fst (loop_body os pre P c s) = None"
    and "files (snd (loop_body os pre P c s)) = files s"
    and "current_data (snd (loop_body os pre P c s)) = current_data s @ [c]"
    and "file_counter (snd (loop_body os pre P c s)) = file_counter s"
    and "rows_ok (snd (loop_body os pre P c s))"
  using assms by (simp_all add: loop_body_def Let_def rows_ok_def)

lemma loop_body_fail:
  assumes "rows_ok s"
    and "P \<le> int (length (concat (map rows (current_data s @ [c]))))"
    and "write_one os pre (file_counter s) (current_data s @ [c]) = Inl e"
  shows "fst (loop_body os pre P c s) = Some e"
    and "files (snd (loop_body os pre P c s)) = files s"
  using assms
  by (auto simp: loop_body_def Let_def rows_ok_def write_one_def to_excel_def
      split: sum.splits option.splits)

lemma loop_body_flush:
  assumes "rows_ok s"
    and "P \<le> int (length (concat (map rows (current_data s @ [c]))))"
    and "write_one os pre (file_counter s) (current_data s @ [c]) = Inr w"
  shows "fst (loop_body os pre P c s) = None"
    and "files (snd (loop_body os pre P c s)) = files s @ [w]"
    and "current_data (snd (loop_body os pre P c s)) = []"
    and "file_counter (snd (loop_body os pre P c s)) = file_counter s + 1"
    and "rows_ok (snd (loop_body os pre P c s))"
  using assms
  by (auto simp: loop_body_def Let_def rows_ok_def write_one_def to_excel_def
      split: sum.splits option.splits)

lemma write_remaining_none:
  "current_data s = [] \<Longrightarrow> write_remaining os pre s = (None, s)"
  by (simp add: write_remaining_def)

lemma write_remaining_fail:
  assumes "current_data s \<noteq> []"
    and "write_one os pre (file_counter s) (current_data s) = Inl e"
  shows "fst (write_remaining os pre s) = Some e"
    and "files (snd (write_remaining os pre s)) = files s"
  using assms
  by (auto simp: write_remaining_def Let_def write_one_def to_excel_def
      split: sum.splits option.splits)

lemma write_remaining_flush:
  assumes "current_data s \<noteq> []"
    and "write_one os pre (file_counter s) (current_data s) = Inr w"
  shows "fst (write_remaining os pre s) = None"
    and "files (snd (write_remaining os pre s)) = files s @ [w]"
  using assms
  by (auto simp: write_remaining_def Let_def write_one_def to_excel_def
      split: sum.splits option.splits)

lemma loop_then_rest_Yield:
  "loop_then_rest os pre P (Yield c it) s =
     (case loop_body os pre P c s of
        (Some e, s') \<Rightarrow> (Some e, s')
      | (None, s') \<Rightarrow> loop_then_rest os pre P it s')"
  by (simp add: loop_then_rest_def split: prod.splits option.splits)

text \<open>
  The run makes the flushes of \<open>groups\<close>, in order, up to the first failure; the reader's
  failure, if any, comes after them.
\<close>

lemma run_writes:
  "rows_ok s \<Longrightarrow>
   fst (loop_then_rest os pre P it s)
     = (case snd (write_groups os pre (file_counter s) (groups P (current_data s) it)) of
          Some e \<Rightarrow> Some e | None \<Rightarrow> end_error it)
   \<and> files (snd (loop_then_rest os pre P it s))
     = files s @ fst (write_groups os pre (file_counter s) (groups P (current_data s) it))"
proof (induction it arbitrary: s)
  case StopIteration
  show ?case
  proof (cases "current_data s = []")
    case True
    then show ?thesis by (simp add: loop_then_rest_def write_remaining_none)
  next
    case False
    show ?thesis
    proof (cases "write_one os pre (file_counter s) (current_data s)")
      case (Inl e)
      show ?thesis
        using False Inl write_remaining_fail [OF False Inl]
        by (simp add: loop_then_rest_def)
    next
      case (Inr w)
      show ?thesis
        using False Inr write_remaining_flush [OF False Inr]
        by (simp add: loop_then_rest_def)
    qed
  qed
next
  case (Raise e)
  then show ?case by (simp add: loop_then_rest_def)
next
  case (Yield c it)
  obtain x s' where lb: "loop_body os pre P c s = (x, s')" by (cases "loop_body os pre P c s")
  show ?case
  proof (cases "P \<le> int (length (concat (map rows (current_data s @ [c]))))")
    case False
    note k = loop_body_keep [OF Yield.prems False, of os pre]
    have x: "x = None" using k(1) lb by simp
    have s': "files s' = files s" "current_data s' = current_data s @ [c]"
      "file_counter s' = file_counter s" "rows_ok s'"
      using k lb by simp_all
    show ?thesis
      using Yield.IH [OF s'(4)] False s'(1-3) x lb
      by (simp add: loop_then_rest_Yield split: option.splits)
  next
    case True
    show ?thesis
    proof (cases "write_one os pre (file_counter s) (current_data s @ [c])")
      case (Inl e)
      note f = loop_body_fail [OF Yield.prems True Inl]
      show ?thesis using f lb True Inl
        by (simp add: loop_then_rest_Yield split: option.splits)
    next
      case (Inr w)
      note f = loop_body_flush [OF Yield.prems True Inr]
      have x: "x = None" using f(1) lb by simp
      have s': "files s' = files s @ [w]"
        "current_data s' = []" "file_counter s' = file_counter s + 1" "rows_ok s'"
        using f lb by simp_all
      show ?thesis
        using Yield.IH [OF s'(4)] True Inr s'(1-3) x lb
        by (simp add: loop_then_rest_Yield split: prod.splits option.splits)
    qed
  qed
qed

lemma put_all_snoc: "put_all (ws @ [w]) d = (put_all ws d)(fst w \<mapsto> sheet_of (snd w))"
  by (induction ws arbitrary: d) simp_all

lemma to_excel_disk_ok: "disk_ok s \<Longrightarrow> disk_ok (snd (to_excel os df fname s))"
  by (cases "to_excel_error os fname df") (simp_all add: to_excel_def disk_ok_def put_all_snoc)

lemma disk_ok_updates:
  "disk_ok (s\<lparr>stdout := out\<rparr>) = disk_ok s"
  "disk_ok (s\<lparr>current_data := cd\<rparr>) = disk_ok s"
  "disk_ok (s\<lparr>current_rows := cr\<rparr>) = disk_ok s"
  "disk_ok (s\<lparr>file_counter := fc\<rparr>) = disk_ok s"
  by (simp_all add: disk_ok_def)

lemma loop_body_disk_ok: "disk_ok s \<Longrightarrow> disk_ok (snd (loop_body os pre P c s))"
proof -
  assume ok: "disk_ok s"
  have "disk_ok (snd (to_excel os df fname (s\<lparr>current_data := cd, current_rows := cr,
          stdout := out\<rparr>)))" for df fname cd cr out
    by (rule to_excel_disk_ok) (simp add: disk_ok_updates ok)
  then show ?thesis
    by (auto simp: loop_body_def Let_def disk_ok_updates ok
        split: sum.splits prod.splits option.splits) (metis snd_conv)+
qed

lemma write_remaining_disk_ok: "disk_ok s \<Longrightarrow> disk_ok (snd (write_remaining os pre s))"
proof -
  assume ok: "disk_ok s"
  have "disk_ok (snd (to_excel os df fname (s\<lparr>stdout := out\<rparr>)))" for df fname out
    by (rule to_excel_disk_ok) (simp add: disk_ok_updates ok)
  then show ?thesis
    by (auto simp: write_remaining_def Let_def disk_ok_updates ok
        split: sum.splits prod.splits option.splits) (metis snd_conv)+
qed

lemma for_chunks_disk_ok: "disk_ok s \<Longrightarrow> disk_ok (snd (for_chunks os pre P it s))"
proof (induction it arbitrary: s)
  case (Yield c it)
  obtain x s' where lb: "loop_body os pre P c s = (x, s')" by (cases "loop_body os pre P c s")
  have "disk_ok s'" using loop_body_disk_ok [OF Yield.prems, of os pre P c] lb by simp
  then show ?case using Yield.IH [of s'] lb by (cases x) simp_all
qed simp_all

lemma loop_then_rest_disk_ok: "disk_ok s \<Longrightarrow> disk_ok (snd (loop_then_rest os pre P it s))"
proof -
  assume ok: "disk_ok s"
  obtain x s' where fc: "for_chunks os pre P it s = (x, s')" by (cases "for_chunks os pre P it s")
  have "disk_ok s'" using for_chunks_disk_ok [OF ok, of os pre P it] fc by simp
  then show ?thesis
    using write_remaining_disk_ok [of s' os pre] fc
    by (cases x) (simp_all add: loop_then_rest_def)
qed

text \<open>A run on an existing file.\<close>

lemma convert_run:
  assumes "path_exists os input_csv"
  shows "written (convert_csv_to_excel os input_csv pa P)
           = fst (write_groups os (chosen_prefix os input_csv pa) 1
                    (groups P [] (read_csv os input_csv 50000)))"
    and "on_disk (convert_csv_to_excel os input_csv pa P)
           = put_all (written (convert_csv_to_excel os input_csv pa P)) Map.empty"
    and "exit_status (convert_csv_to_excel os input_csv pa P)
           = (if first_error os (chosen_prefix os input_csv pa) P (read_csv os input_csv 50000)
                   = None then 0 else 1)"
proof -
  let ?pre = "chosen_prefix os input_csv pa"
  let ?it = "read_csv os input_csv 50000"
  let ?s0 = "\<lparr>current_data = [], current_rows = 0, file_counter = 1,
              stdout = [''Processing '' @ quoted input_csv @ ''...'',
                        ''Splitting into files of '' @ str_int P
                          @ '' rows each to save RAM and fit in Excel...''],
              files = [], disk = Map.empty\<rparr> :: 'a state"
  obtain x s where r: "loop_then_rest os ?pre P ?it ?s0 = (x, s)"
    by (cases "loop_then_rest os ?pre P ?it ?s0")
  have ok: "rows_ok ?s0" by (simp add: rows_ok_def)
  have c: "convert_csv_to_excel os input_csv pa P =
             (case x of Some e \<Rightarrow> except_handler e s
              | None \<Rightarrow> \<lparr>printed = stdout s @ [''All conversions successful!''],
                          written = files s, on_disk = disk s, exit_status = 0\<rparr>)"
    using assms r
    by (auto simp: convert_csv_to_excel_def loop_then_rest_def Let_def
        split: prod.splits option.splits)
  have x: "x = first_error os ?pre P ?it"
    and f: "files s = fst (write_groups os ?pre 1 (groups P [] ?it))"
    using run_writes [OF ok, of os ?pre P ?it] r by (simp_all add: first_error_def)
  have "disk_ok ?s0" by (simp add: disk_ok_def)
  then have "disk_ok s" using loop_then_rest_disk_ok [of ?s0 os ?pre P ?it] r by simp
  then have d: "disk s = put_all (files s) Map.empty" by (simp add: disk_ok_def)
  have w: "written (convert_csv_to_excel os input_csv pa P) = files s"
    and o: "on_disk (convert_csv_to_excel os input_csv pa P) = disk s"
    by (simp_all add: c except_handler_def split: option.splits)
  show "written (convert_csv_to_excel os input_csv pa P)
          = fst (write_groups os ?pre 1 (groups P [] ?it))"
    using w f by simp
  show "on_disk (convert_csv_to_excel os input_csv pa P)
          = put_all (written (convert_csv_to_excel os input_csv pa P)) Map.empty"
    by (simp only: w o d)
  show "exit_status (convert_csv_to_excel os input_csv pa P)
          = (if first_error os ?pre P ?it = None then 0 else 1)"
    using c x by (auto simp: except_handler_def split: option.splits)
qed

section \<open>Properties of the partition\<close>

lemma concat_parts: "concat (parts P buf cs) = concat buf @ concat cs"
  by (induction cs arbitrary: buf) simp_all

lemma parts_nonempty:
  "[] \<notin> set buf \<Longrightarrow> [] \<notin> set cs \<Longrightarrow> [] \<notin> set (parts P buf cs)"
proof (induction cs arbitrary: buf)
  case Nil
  then show ?case by (cases buf) auto
next
  case (Cons c cs)
  then have c: "c \<noteq> []" and cs: "[] \<notin> set cs" by auto
  have b: "[] \<notin> set (buf @ [c])" using Cons.prems(1) c by auto
  show ?case using Cons.IH [OF b cs] Cons.IH [of "[]", OF _ cs] c by simp
qed

lemma parts_nonpos: "P \<le> 0 \<Longrightarrow> parts P [] cs = cs"
  by (induction cs) simp_all

lemma parts_lower: "a \<in> set (butlast (parts P buf cs)) \<Longrightarrow> P \<le> int (length a)"
  by (induction cs arbitrary: buf) (auto split: if_splits)

lemma parts_upper:
  "int (length (concat buf)) < P \<Longrightarrow> \<forall>c\<in>set cs. int (length c) \<le> n \<Longrightarrow> 0 < P \<Longrightarrow>
   a \<in> set (parts P buf cs) \<Longrightarrow> 0 < n \<Longrightarrow> int (length a) \<le> P + n - 1"
proof (induction cs arbitrary: buf)
  case Nil
  then show ?case by (auto split: if_splits)
next
  case (Cons c cs)
  have c: "int (length c) \<le> n" and cs: "\<forall>c\<in>set cs. int (length c) \<le> n"
    using Cons.prems(2) by auto
  show ?case
  proof (cases "P \<le> int (length (concat (buf @ [c])))")
    case True
    then have "a = concat (buf @ [c]) \<or> a \<in> set (parts P [] cs)"
      using Cons.prems(4) by simp
    then show ?thesis
    proof
      assume "a = concat (buf @ [c])"
      then show ?thesis using Cons.prems(1) c by simp
    next
      assume "a \<in> set (parts P [] cs)"
      then show ?thesis using Cons.IH [of "[]"] cs Cons.prems(3,5) by simp
    qed
  next
    case False
    then have "a \<in> set (parts P (buf @ [c]) cs)" using Cons.prems(4) by simp
    then show ?thesis using Cons.IH [of "buf @ [c]"] cs Cons.prems(3,5) False by simp
  qed
qed

lemma fixed_size_Cons:
  "fixed_size n (c # cs) \<Longrightarrow>
   length c \<le> n \<and> (cs \<noteq> [] \<longrightarrow> length c = n) \<and> fixed_size n cs"
  by (cases cs) auto

lemma units_below:
  assumes "int (n * j) < P" and "P \<le> int (n * m)"
  shows "j < m"
proof -
  have "n * j < n * m" using assms by linarith
  then show ?thesis by simp
qed

lemma parts_ceiling:
  "fixed_size n cs \<Longrightarrow> length (concat buf) = n * j \<Longrightarrow> P \<le> int (n * m) \<Longrightarrow> 0 < m \<Longrightarrow>
   int (length (concat buf)) < P \<or> buf = [] \<Longrightarrow>
   a \<in> set (parts P buf cs) \<Longrightarrow> length a \<le> n * m"
proof (induction cs arbitrary: buf j)
  case Nil
  show ?case
  proof (cases "buf = []")
    case True
    then show ?thesis using Nil.prems(6) by simp
  next
    case False
    then have "j < m" using Nil.prems(2,3,5) units_below [of n j P m] by simp
    then have "n * j \<le> n * m" by (intro mult_le_mono2) simp
    then show ?thesis using False Nil.prems(2,6) by simp
  qed
next
  case (Cons c cs)
  from fixed_size_Cons [OF Cons.prems(1)]
  have c: "length c \<le> n" and full: "cs \<noteq> [] \<Longrightarrow> length c = n" and cs: "fixed_size n cs"
    by auto
  have bound: "length (concat (buf @ [c])) \<le> n * m"
  proof (cases "buf = []")
    case True
    have "n \<le> n * m" using Cons.prems(4) by (cases m) simp_all
    with c have "length c \<le> n * m" by (rule le_trans)
    then show ?thesis by (simp add: True)
  next
    case False
    then have "j < m" using Cons.prems(2,3,5) units_below [of n j P m] by simp
    then have "n * (j + 1) \<le> n * m" by (intro mult_le_mono2) simp
    then show ?thesis using c Cons.prems(2) by simp
  qed
  show ?case
  proof (cases "P \<le> int (length (concat (buf @ [c])))")
    case True
    then have "a = concat (buf @ [c]) \<or> a \<in> set (parts P [] cs)"
      using Cons.prems(6) by simp
    then show ?thesis
    proof
      assume "a = concat (buf @ [c])"
      then show ?thesis using bound by simp
    next
      assume "a \<in> set (parts P [] cs)"
      then show ?thesis using Cons.IH [of "[]" 0, OF cs] Cons.prems(3,4) by simp
    qed
  next
    case False
    then have a: "a \<in> set (parts P (buf @ [c]) cs)" using Cons.prems(6) by simp
    show ?thesis
    proof (cases "cs = []")
      case True
      then show ?thesis using a bound by simp
    next
      case more: False
      have "length (concat (buf @ [c])) = n * (j + 1)"
        using full [OF more] Cons.prems(2) by simp
      then show ?thesis
        using Cons.IH [of "buf @ [c]" "j + 1", OF cs _ Cons.prems(3,4) _ a] False by simp
    qed
  qed
qed

lemma parts_flush_at_end:
  "cs \<noteq> [] \<Longrightarrow>
   int (length (concat buf)) + int (length (concat (butlast cs))) < P \<Longrightarrow>
   P \<le> int (length (concat buf)) + int (length (concat cs)) \<Longrightarrow>
   parts P buf (cs @ ds) = (concat buf @ concat cs) # parts P [] ds"
proof (induction cs arbitrary: buf)
  case Nil
  then show ?case by simp
next
  case (Cons c cs)
  show ?case
  proof (cases "cs = []")
    case True
    then show ?thesis using Cons.prems(3) by simp
  next
    case False
    then have keep: "\<not> P \<le> int (length (concat (buf @ [c])))"
      using Cons.prems(2) by simp
    have "parts P (buf @ [c]) (cs @ ds) = (concat (buf @ [c]) @ concat cs) # parts P [] ds"
      using Cons.IH [of "buf @ [c]", OF False] Cons.prems(2,3) False by simp
    then show ?thesis using keep by simp
  qed
qed

lemma units_butlast_full:
  "fixed_size n cs \<Longrightarrow> c \<in> set (butlast cs) \<Longrightarrow> length c = n"
  by (induction n cs rule: fixed_size.induct) (auto split: if_splits)

lemma units_butlast_rows:
  "fixed_size n cs \<Longrightarrow> length (concat (butlast cs)) = n * (length cs - 1)"
  by (induction n cs rule: fixed_size.induct) simp_all

lemma units_last: "fixed_size n cs \<Longrightarrow> cs \<noteq> [] \<Longrightarrow> length (last cs) \<le> n"
  by (induction n cs rule: fixed_size.induct) simp_all

lemma units_butlast: "fixed_size n cs \<Longrightarrow> fixed_size n (butlast cs)"
  by (induction n cs rule: fixed_size.induct) (auto split: if_splits)

lemma concat_butlast_last: "cs \<noteq> [] \<Longrightarrow> concat cs = concat (butlast cs) @ last cs"
proof -
  assume "cs \<noteq> []"
  then have "concat cs = concat (butlast cs @ [last cs])" by simp
  then show ?thesis by (simp only: concat_append concat.simps append_Nil2)
qed

lemma rows_butlast_last:
  "cs \<noteq> [] \<Longrightarrow> length (concat cs) = length (concat (butlast cs)) + length (last cs)"
  using concat_butlast_last [of cs] by (metis length_append)

lemma last_nonempty: "[] \<notin> set cs \<Longrightarrow> cs \<noteq> [] \<Longrightarrow> 0 < length (last cs)"
  using last_in_set [of cs] by (cases "last cs") auto

text \<open>Chunks without rows never reach a positive threshold; they are left to the end.\<close>

lemma parts_no_rows:
  "length (concat (buf @ cs)) = 0 \<Longrightarrow> 0 < P \<Longrightarrow>
   parts P buf cs = (if buf @ cs = [] then [] else [[]])"
proof (induction cs arbitrary: buf)
  case Nil
  then show ?case by simp
next
  case (Cons c cs)
  have "length (concat ((buf @ [c]) @ cs)) = 0" using Cons.prems(1) by simp
  then have rest: "parts P (buf @ [c]) cs = [[]]"
    using Cons.IH [of "buf @ [c]"] Cons.prems(2) by simp
  have "length (concat (buf @ [c])) = 0" using Cons.prems(1) by simp
  then have "\<not> P \<le> int (length (concat (buf @ [c])))" using Cons.prems(2) by linarith
  then have "parts P buf (c # cs) = parts P (buf @ [c]) cs" by simp
  then show ?case using rest by simp
qed

text \<open>The input is one threshold long: a single part holds all of it.\<close>

lemma parts_exact:
  assumes "[] \<notin> set cs" and "0 < P" and "int (length (concat cs)) = P"
  shows "parts P [] cs = [concat cs]"
proof -
  have ne: "cs \<noteq> []" using assms(2,3) by auto
  have "int (length (concat (butlast cs))) < P"
    using assms(3) rows_butlast_last [OF ne] last_nonempty [OF assms(1) ne] by linarith
  then show ?thesis
    using parts_flush_at_end [OF ne, of "[]" P "[]"] assms(3) by simp
qed

text \<open>
  The input is one row longer than the threshold. The totals the loop compares with the
  threshold are multiples of the chunk size until the last chunk arrives.
\<close>

lemma parts_one_more_single:
  assumes "fixed_size n cs" and "[] \<notin> set cs" and "0 < P"
    and "int (length (concat cs)) = P + 1" and "\<not> int n dvd P"
  shows "parts P [] cs = [concat cs]"
proof -
  have ne: "cs \<noteq> []" using assms(3,4) by auto
  have bs: "length (concat (butlast cs)) = n * (length cs - 1)"
    by (rule units_butlast_rows [OF assms(1)])
  have "int n dvd int (length (concat (butlast cs)))" by (simp add: bs)
  then have "int (length (concat (butlast cs))) \<noteq> P" using assms(5) by auto
  moreover have "int (length (concat (butlast cs))) \<le> P"
    using assms(4) rows_butlast_last [OF ne] last_nonempty [OF assms(2) ne] by linarith
  ultimately have "int (length (concat (butlast cs))) < P" by simp
  then show ?thesis
    using parts_flush_at_end [OF ne, of "[]" P "[]"] assms(4) by simp
qed

lemma small_multiple_zero:
  assumes "int n dvd x" and "0 \<le> x" and "x < int n"
  shows "x = 0"
proof (rule ccontr)
  assume "x \<noteq> 0"
  then have "0 < x" using assms(2) by simp
  then show False using zdvd_not_zless [of x "int n"] assms(1,3) by simp
qed

lemma parts_one_more_split:
  assumes "fixed_size n cs" and "[] \<notin> set cs" and "0 < P"
    and "int (length (concat cs)) = P + 1" and "int n dvd P" and "1 < n"
  shows "parts P [] cs = [take (nat P) (concat cs), drop (nat P) (concat cs)]"
proof -
  have ne: "cs \<noteq> []" using assms(3,4) by auto
  let ?bs = "butlast cs"
  have bs: "length (concat ?bs) = n * (length cs - 1)"
    by (rule units_butlast_rows [OF assms(1)])
  have tot: "length (concat cs) = length (concat ?bs) + length (last cs)"
    by (rule rows_butlast_last [OF ne])
  have up: "length (last cs) \<le> n" by (rule units_last [OF assms(1) ne])
  have lo: "0 < length (last cs)" by (rule last_nonempty [OF assms(2) ne])
  have d1: "int n dvd int (length (concat ?bs))" by (simp add: bs)
  have "int (length (last cs)) - 1 = P - int (length (concat ?bs))"
    using tot assms(4) by linarith
  then have "int n dvd (int (length (last cs)) - 1)"
    using dvd_diff [OF assms(5) d1] by simp
  then have "int (length (last cs)) - 1 = 0"
    using lo up by (intro small_multiple_zero [of n]) auto
  then have one: "length (last cs) = 1" by simp
  have full: "int (length (concat ?bs)) = P" using tot assms(4) one by linarith
  have bne: "?bs \<noteq> []" using full assms(3) by auto
  have bb: "length (concat (butlast ?bs)) = n * (length ?bs - 1)"
    by (rule units_butlast_rows [OF units_butlast [OF assms(1)]])
  have "0 < length ?bs" using bne length_greater_0_conv by blast
  then have "n * (length ?bs - 1) < n * length ?bs" using assms(6) by simp
  then have "length (concat (butlast ?bs)) < length (concat ?bs)"
    using bb bs by simp
  then have less: "int (length (concat (butlast ?bs))) < P" using full by linarith
  have first: "parts P [] (?bs @ [last cs]) = concat ?bs # parts P [] [last cs]"
    using parts_flush_at_end [OF bne, of "[]" P "[last cs]"] less full by simp
  have "int n \<le> P" using zdvd_imp_le [of "int n" P] assms(3,5) by simp
  then have "1 < P" using assms(6) by linarith
  then have second: "parts P [] [last cs] = [last cs]" using one by simp
  have "?bs @ [last cs] = cs" using ne by simp
  then have p: "parts P [] cs = [concat ?bs, last cs]" using first second by simp
  have c: "concat cs = concat ?bs @ last cs" by (rule concat_butlast_last [OF ne])
  have n: "length (concat ?bs) = nat P" using full by simp
  have "take (nat P) (concat cs) = concat ?bs" by (simp add: c n [symmetric])
  moreover have "drop (nat P) (concat cs) = last cs" by (simp add: c n [symmetric])
  ultimately show ?thesis using p by simp
qed


section \<open>File names\<close>

lemma str_nat_nonempty: "str_nat n \<noteq> []"
  by (subst str_nat.simps) simp

lemma digit_char_inj:
  assumes "a < 10" and "b < 10" and "digit_char a = digit_char b"
  shows "a = b"
proof -
  have a: "a \<in> {0, 1, 2, 3, 4, 5, 6, 7, 8, 9}" using assms(1) by auto
  have b: "b \<in> {0, 1, 2, 3, 4, 5, 6, 7, 8, 9}" using assms(2) by auto
  show ?thesis using a b assms(3) by (auto simp: digit_char_def)
qed

lemma str_nat_inj: "str_nat n = str_nat m \<Longrightarrow> n = m"
proof (induction n arbitrary: m rule: str_nat.induct)
  case (1 n)
  show ?case
  proof (cases "n < 10")
    case True
    then have n: "str_nat n = [digit_char n]" by (subst str_nat.simps) simp
    have "m < 10"
    proof (rule ccontr)
      assume "\<not> m < 10"
      then have "str_nat m = str_nat (m div 10) @ [digit_char (m mod 10)]"
        by (subst str_nat.simps) simp
      then show False using n "1.prems" str_nat_nonempty [of "m div 10"] by simp
    qed
    then have "str_nat m = [digit_char m]" by (subst str_nat.simps) simp
    then show ?thesis using n "1.prems" True \<open>m < 10\<close> digit_char_inj by simp
  next
    case False
    then have n: "str_nat n = str_nat (n div 10) @ [digit_char (n mod 10)]"
      by (subst str_nat.simps) simp
    have "\<not> m < 10"
    proof
      assume "m < 10"
      then have "str_nat m = [digit_char m]" by (subst str_nat.simps) simp
      then show False using n "1.prems" str_nat_nonempty [of "n div 10"] by simp
    qed
    then have "str_nat m = str_nat (m div 10) @ [digit_char (m mod 10)]"
      by (subst str_nat.simps) simp
    then have q: "str_nat (n div 10) = str_nat (m div 10)"
      and d: "digit_char (n mod 10) = digit_char (m mod 10)"
      using n "1.prems" by simp_all
    have "n div 10 = m div 10" using "1.IH" [OF False q] .
    moreover have "n mod 10 = m mod 10" using d by (intro digit_char_inj) simp_all
    ultimately show ?thesis by (metis div_mult_mod_eq)
  qed
qed

lemma output_filename_inj:
  assumes "output_filename pre i = output_filename pre j" and "0 \<le> i" and "0 \<le> j"
  shows "i = j"
proof -
  have "str_nat (nat i) = str_nat (nat j)"
    using assms by (simp add: output_filename_def str_int_def)
  then have "nat i = nat j" by (rule str_nat_inj)
  then show ?thesis using assms(2,3) by simp
qed


section \<open>The flushes of a run\<close>

lemma groups_yields_parts:
  "map (\<lambda>g. concat (map rows g)) (groups P buf (yields cs)) = parts P (map rows buf) (map rows cs)"
  by (induction cs arbitrary: buf) simp_all

lemma groups_nonempty: "[] \<notin> set (groups P buf it)"
  by (induction it arbitrary: buf) simp_all

lemma groups_frames:
  "g \<in> set (groups P buf (yields cs)) \<Longrightarrow> set g \<subseteq> set buf \<union> set cs"
proof (induction cs arbitrary: buf)
  case Nil
  then show ?case by (simp split: if_splits)
next
  case (Cons c cs)
  then show ?case by (fastforce split: if_splits)
qed

lemma fixed_size_units_rows: "fixed_size_units n cs = fixed_size n (map rows cs)"
  by (induction n cs rule: fixed_size_units.induct) simp_all

lemma write_groups_length: "length (fst (write_groups os pre k gs)) \<le> length gs"
  by (induction gs arbitrary: k) (auto split: sum.splits)

lemma write_groups_complete:
  "(snd (write_groups os pre k gs) = None) = (length (fst (write_groups os pre k gs)) = length gs)"
proof (induction gs arbitrary: k)
  case Nil
  then show ?case by simp
next
  case (Cons g gs)
  show ?case
  proof (cases "write_one os pre k g")
    case (Inl e)
    then show ?thesis by simp
  next
    case (Inr w)
    then show ?thesis using Cons.IH [of "k + 1"] by simp
  qed
qed

lemma write_groups_names:
  "map fst (fst (write_groups os pre k gs))
     = map (\<lambda>i. output_filename pre (k + int i)) [0..<length (fst (write_groups os pre k gs))]"
proof (induction gs arbitrary: k)
  case Nil
  then show ?case by simp
next
  case (Cons g gs)
  show ?case
  proof (cases "write_one os pre k g")
    case (Inl e)
    then show ?thesis by simp
  next
    case (Inr w)
    let ?ws = "fst (write_groups os pre (k + 1) gs)"
    have w: "fst w = output_filename pre k"
      using Inr by (auto simp: write_one_def split: sum.splits option.splits)
    have "[0..<length (w # ?ws)] = 0 # map Suc [0..<length ?ws]"
      by (simp add: upt_conv_Cons map_Suc_upt del: upt_Suc)
    then show ?thesis using Cons.IH [of "k + 1"] Inr w
      by (simp add: comp_def add.assoc del: upt_Suc)
  qed
qed

text \<open>Every frame written has the rows count of its list of chunks.\<close>

lemma write_one_rows:
  "write_one os pre k g = Inr w \<Longrightarrow> length (rows (snd w)) = length (concat (map rows g))"
  by (auto simp: write_one_def dest: pd_concat_rows split: sum.splits option.splits)

lemma write_groups_sizes:
  "map (\<lambda>w. length (rows (snd w))) (fst (write_groups os pre k gs))
     = take (length (fst (write_groups os pre k gs)))
         (map (\<lambda>g. length (concat (map rows g))) gs)"
proof (induction gs arbitrary: k)
  case Nil
  then show ?case by simp
next
  case (Cons g gs)
  show ?case
  proof (cases "write_one os pre k g")
    case (Inl e)
    then show ?thesis by simp
  next
    case (Inr w)
    then show ?thesis using Cons.IH [of "k + 1"] write_one_rows [OF Inr]
      by simp
  qed
qed

text \<open>With the same column names in every chunk, every frame written is its chunks' rows.\<close>

lemma write_one_same:
  assumes "write_one os pre k g = Inr w" and "g \<noteq> []" and "list_all (\<lambda>c. columns c = cols) g"
  shows "w = (output_filename pre k, \<lparr>columns = cols, rows = concat (map rows g)\<rparr>)"
  using assms pd_concat_same [OF assms(2,3), of os]
  by (auto simp: write_one_def split: sum.splits option.splits)

lemma write_groups_same:
  assumes "[] \<notin> set gs" and "\<forall>g\<in>set gs. list_all (\<lambda>c. columns c = cols) g"
  shows "map snd (fst (write_groups os pre k gs))
           = take (length (fst (write_groups os pre k gs)))
               (map (\<lambda>g. \<lparr>columns = cols, rows = concat (map rows g)\<rparr>) gs)"
  using assms
proof (induction gs arbitrary: k)
  case Nil
  then show ?case by simp
next
  case (Cons g gs)
  show ?case
  proof (cases "write_one os pre k g")
    case (Inl e)
    then show ?thesis by simp
  next
    case (Inr w)
    have "g \<noteq> []" and "list_all (\<lambda>c. columns c = cols) g" using Cons.prems by auto
    from write_one_same [OF Inr this]
    have w: "snd w = \<lparr>columns = cols, rows = concat (map rows g)\<rparr>" by simp
    have "[] \<notin> set gs" and "\<forall>g\<in>set gs. list_all (\<lambda>c. columns c = cols) g"
      using Cons.prems by auto
    then show ?thesis using Cons.IH [of "k + 1"] Inr w by simp
  qed
qed

lemma groups_same_columns:
  assumes "list_all (\<lambda>c. columns c = cols) cs"
  shows "\<forall>g\<in>set (groups P [] (yields cs)). list_all (\<lambda>c. columns c = cols) g"
proof
  fix g assume "g \<in> set (groups P [] (yields cs))"
  then have "set g \<subseteq> set cs" using groups_frames [of g P "[]" cs] by simp
  then show "list_all (\<lambda>c. columns c = cols) g" using assms by (auto simp: list_all_iff)
qed

section \<open>The files on disk\<close>

lemma put_all_other: "f \<notin> fst ` set ws \<Longrightarrow> put_all ws d f = d f"
  by (induction ws arbitrary: d) auto

lemma put_all_distinct:
  "distinct (map fst ws) \<Longrightarrow> map (put_all ws d) (map fst ws) = map (\<lambda>w. Some (sheet_of (snd w))) ws"
proof (induction ws arbitrary: d)
  case Nil
  then show ?case by simp
next
  case (Cons w ws)
  have "put_all ws (d(fst w \<mapsto> sheet_of (snd w))) (fst w) = Some (sheet_of (snd w))"
    using Cons.prems by (simp add: put_all_other)
  then show ?case using Cons by simp
qed

lemma dom_put_all: "dom (put_all ws d) = dom d \<union> fst ` set ws"
  by (induction ws arbitrary: d) auto

lemma write_groups_distinct:
  "0 \<le> k \<Longrightarrow> distinct (map fst (fst (write_groups os pre k gs)))"
proof -
  assume k: "0 \<le> k"
  let ?n = "length (fst (write_groups os pre k gs))"
  have "inj_on (\<lambda>i. output_filename pre (k + int i)) (set [0..<?n])"
    using k by (auto simp: inj_on_def dest!: output_filename_inj)
  then show ?thesis by (subst write_groups_names) (simp add: distinct_map)
qed

lemma butlast_take_subset: "set (butlast (take n xs)) \<subseteq> set (butlast xs)"
proof -
  have "butlast (take n xs) = take (min n (length xs) - 1) xs"
    by (simp add: butlast_conv_take min.commute)
  moreover have "butlast xs = take (length xs - 1) xs" by (simp add: butlast_conv_take)
  moreover have "set (take (min n (length xs) - 1) xs) \<subseteq> set (take (length xs - 1) xs)"
    by (rule set_take_subset_set_take) simp
  ultimately show ?thesis by simp
qed

section \<open>Runs whose reader delivers its chunks\<close>

lemma length_name_frames: "length (name_frames pre cols k rs) = length rs"
  by (induction rs arbitrary: k) simp_all

lemma map_rows_name_frames: "map (\<lambda>w. rows (snd w)) (name_frames pre cols k rs) = rs"
  by (induction rs arbitrary: k) simp_all

lemma columns_name_frames: "w \<in> set (name_frames pre cols k rs) \<Longrightarrow> columns (snd w) = cols"
  by (induction rs arbitrary: k) auto

lemma write_groups_frames:
  assumes "[] \<notin> set gs" and "\<forall>g\<in>set gs. list_all (\<lambda>c. columns c = cols) g"
  shows "fst (write_groups os pre k gs)
           = take (length (fst (write_groups os pre k gs)))
               (name_frames pre cols k (map (\<lambda>g. concat (map rows g)) gs))"
  using assms
proof (induction gs arbitrary: k)
  case Nil
  then show ?case by simp
next
  case (Cons g gs)
  show ?case
  proof (cases "write_one os pre k g")
    case (Inl e)
    then show ?thesis by simp
  next
    case (Inr w)
    have "g \<noteq> []" and "list_all (\<lambda>c. columns c = cols) g" using Cons.prems by auto
    from write_one_same [OF Inr this]
    have w: "w = (output_filename pre k, \<lparr>columns = cols, rows = concat (map rows g)\<rparr>)" .
    have "[] \<notin> set gs" and "\<forall>g\<in>set gs. list_all (\<lambda>c. columns c = cols) g"
      using Cons.prems by auto
    then have "fst (write_groups os pre (k + 1) gs)
                 = take (length (fst (write_groups os pre (k + 1) gs)))
                     (name_frames pre cols (k + 1) (map (\<lambda>g. concat (map rows g)) gs))"
      by (rule Cons.IH)
    then show ?thesis using Inr w by simp
  qed
qed

lemma write_groups_never_fails:
  assumes "[] \<notin> set gs" and "\<And>fs. concat_error os fs = None"
    and "\<And>fname df. to_excel_error os fname df = None"
  shows "snd (write_groups os pre k gs) = None"
  using assms(1)
proof (induction gs arbitrary: k)
  case Nil
  then show ?case by simp
next
  case (Cons g gs)
  then have "g \<noteq> []" by auto
  then have "\<exists>df. pd_concat os g = Inr df"
    by (cases g) (auto simp: pd_concat_def Let_def assms(2))
  then obtain df where "pd_concat os g = Inr df" by blast
  then have "write_one os pre k g = Inr (output_filename pre k, df)"
    by (simp add: write_one_def assms(3))
  then show ?case using Cons by simp
qed

lemma end_error_yields: "end_error (yields cs) = None"
  by (induction cs) simp_all

lemma length_groups_yields:
  "length (groups P [] (yields cs)) = length (parts P [] (map rows cs))"
  using groups_yields_parts [of P "[]" cs] by (metis length_map list.map(1))

text \<open>
  For an existing input whose reader delivers the chunks \<open>cs\<close>: the names of the files
  written, the number of rows in each, when the run ends well, and what is on disk.
\<close>

lemma run_names:
  assumes "path_exists os input_csv"
  shows "map fst (written (convert_csv_to_excel os input_csv pa P))
           = map (\<lambda>i. output_filename (chosen_prefix os input_csv pa) (1 + int i))
               [0..<length (written (convert_csv_to_excel os input_csv pa P))]"
    and "distinct (map fst (written (convert_csv_to_excel os input_csv pa P)))"
  by (simp_all only: convert_run(1) [OF assms] write_groups_names [symmetric])
     (simp add: write_groups_distinct)

lemma run_sizes:
  assumes "path_exists os input_csv" and "read_csv os input_csv 50000 = yields cs"
  shows "map (\<lambda>w. length (rows (snd w))) (written (convert_csv_to_excel os input_csv pa P))
           = take (length (written (convert_csv_to_excel os input_csv pa P)))
               (map length (parts P [] (map rows cs)))"
proof -
  have "map (\<lambda>g. length (concat (map rows g))) (groups P [] (yields cs))
          = map length (parts P [] (map rows cs))"
    using groups_yields_parts [of P "[]" cs]
    by (metis (no_types, lifting) list.map(1) map_map comp_def map_eq_conv)
  then show ?thesis
    using write_groups_sizes [of os "chosen_prefix os input_csv pa" 1 "groups P [] (yields cs)"]
    by (simp only: convert_run(1) [OF assms(1)] assms(2))
qed

lemma run_complete:
  assumes "path_exists os input_csv" and "read_csv os input_csv 50000 = yields cs"
  shows "(exit_status (convert_csv_to_excel os input_csv pa P) = 0)
           = (length (written (convert_csv_to_excel os input_csv pa P))
                = length (parts P [] (map rows cs)))"
proof -
  let ?wg = "write_groups os (chosen_prefix os input_csv pa) 1 (groups P [] (yields cs))"
  have "first_error os (chosen_prefix os input_csv pa) P (yields cs) = snd ?wg"
    by (simp add: first_error_def end_error_yields split: option.splits)
  moreover have "(snd ?wg = None) = (length (fst ?wg) = length (parts P [] (map rows cs)))"
    using write_groups_complete [of os "chosen_prefix os input_csv pa" 1 "groups P [] (yields cs)"]
    by (simp only: length_groups_yields)
  ultimately show ?thesis
    by (simp add: convert_run(1,3) [OF assms(1)] assms(2))
qed

lemma run_frames:
  assumes "path_exists os input_csv" and "read_csv os input_csv 50000 = yields cs"
    and "list_all (\<lambda>c. columns c = cols) cs"
  shows "written (convert_csv_to_excel os input_csv pa P)
           = take (length (written (convert_csv_to_excel os input_csv pa P)))
               (name_frames (chosen_prefix os input_csv pa) cols 1 (parts P [] (map rows cs)))"
proof -
  let ?pre = "chosen_prefix os input_csv pa"
  let ?gs = "groups P [] (yields cs)"
  have "fst (write_groups os ?pre 1 ?gs)
          = take (length (fst (write_groups os ?pre 1 ?gs)))
              (name_frames ?pre cols 1 (map (\<lambda>g. concat (map rows g)) ?gs))"
    by (rule write_groups_frames [OF groups_nonempty groups_same_columns [OF assms(3)]])
  then show ?thesis
    by (simp only: convert_run(1) [OF assms(1)] assms(2) groups_yields_parts list.map)
qed

lemma run_frames_complete:
  assumes "read_csv os input_csv 50000 = yields cs"
    and "list_all (\<lambda>c. columns c = cols) cs"
    and "exit_status (convert_csv_to_excel os input_csv pa P) = 0"
  shows "written (convert_csv_to_excel os input_csv pa P)
           = name_frames (chosen_prefix os input_csv pa) cols 1 (parts P [] (map rows cs))"
proof -
  have ex: "path_exists os input_csv"
    using assms(3) by (auto simp: convert_csv_to_excel_def split: if_splits)
  have "length (written (convert_csv_to_excel os input_csv pa P))
          = length (parts P [] (map rows cs))"
    using run_complete [OF ex assms(1)] assms(3) by simp
  then show ?thesis using run_frames [OF ex assms(1,2), of pa P]
    by (simp add: length_name_frames)
qed

lemma run_never_fails:
  assumes "path_exists os input_csv" and "read_csv os input_csv 50000 = yields cs"
    and "\<And>fs. concat_error os fs = None"
    and "\<And>fname df. to_excel_error os fname df = None"
  shows "exit_status (convert_csv_to_excel os input_csv pa P) = 0"
proof -
  have "snd (write_groups os (chosen_prefix os input_csv pa) 1 (groups P [] (yields cs))) = None"
    by (rule write_groups_never_fails [OF groups_nonempty assms(3,4)])
  then show ?thesis
    by (simp add: convert_run(3) [OF assms(1)] assms(2) first_error_def end_error_yields)
qed

lemma run_disk:
  assumes "path_exists os input_csv"
  shows "parts_on_disk (convert_csv_to_excel os input_csv pa P) (chosen_prefix os input_csv pa)
           (length (written (convert_csv_to_excel os input_csv pa P)))
         = map (\<lambda>w. Some (sheet_of (snd w))) (written (convert_csv_to_excel os input_csv pa P))"
    and "dom (on_disk (convert_csv_to_excel os input_csv pa P))
           = set (map fst (written (convert_csv_to_excel os input_csv pa P)))"
    and "card (dom (on_disk (convert_csv_to_excel os input_csv pa P)))
           = length (written (convert_csv_to_excel os input_csv pa P))"
proof -
  let ?p = "convert_csv_to_excel os input_csv pa P"
  let ?pre = "chosen_prefix os input_csv pa"
  let ?n = "length (written ?p)"
  have names: "map fst (written ?p) = map (\<lambda>i. output_filename ?pre (1 + int i)) [0..<?n]"
    and dist: "distinct (map fst (written ?p))"
    by (rule run_names [OF assms])+
  have disk: "on_disk ?p = put_all (written ?p) Map.empty"
    by (rule convert_run(2) [OF assms])
  have "map (\<lambda>k. on_disk ?p (output_filename ?pre (int k))) [1..<Suc ?n]
          = map (on_disk ?p) (map (\<lambda>i. output_filename ?pre (1 + int i)) [0..<?n])"
    by (simp add: map_Suc_upt [symmetric] comp_def add.commute del: upt_Suc)
  also have "\<dots> = map (on_disk ?p) (map fst (written ?p))" by (simp only: names [symmetric])
  also have "\<dots> = map (\<lambda>w. Some (sheet_of (snd w))) (written ?p)"
    by (simp only: disk put_all_distinct [OF dist])
  finally show "parts_on_disk ?p ?pre ?n = map (\<lambda>w. Some (sheet_of (snd w))) (written ?p)"
    by (simp only: parts_on_disk_def)
  show d: "dom (on_disk ?p) = set (map fst (written ?p))"
    by (simp only: disk dom_put_all) simp
  show "card (dom (on_disk ?p)) = ?n"
    by (simp only: d distinct_card [OF dist] length_map)
qed

section \<open>Concrete runs\<close>

lemma single_file_os_simps:
  "path_exists (single_file_os path cs) p = (p = path)"
  "read_csv (single_file_os path cs) p n = yields cs"
  "concat_error (single_file_os path cs) fs = None"
  "to_excel_error (single_file_os path cs) fname df = None"
  "splitext_root (single_file_os path cs) = takeWhile (\<lambda>c. c \<noteq> CHR ''.'')"
  by (simp_all add: single_file_os_def)

lemma single_file_os_exit:
  "exit_status (convert_csv_to_excel (single_file_os path cs) path pa P) = 0"
  by (rule run_never_fails) (simp_all add: single_file_os_simps)

lemma chunk_simps: "columns (chunk xs) = [''id'']" "rows (chunk xs) = map (\<lambda>x. [x]) xs"
  by (simp_all add: chunk_def)

lemma full_chunk_simps: "columns full_chunk = [''id'']" "length (rows full_chunk) = 50000"
  by (simp_all only: full_chunk_def frame.simps length_replicate)

lemma output_filename_data:
  "output_filename ''data'' 1 = ''data_part1.xlsx''"
  "output_filename ''data'' 2 = ''data_part2.xlsx''"
  "output_filename ''data'' 3 = ''data_part3.xlsx''"
  by (simp_all add: output_filename_def str_int_def str_nat.simps digit_char_def)

lemma prefix_data: "chosen_prefix (single_file_os ''data.csv'' cs) ''data.csv'' None = ''data''"
  by (simp add: chosen_prefix_def single_file_os_simps)

text \<open>The sizes of the frames written, from the sizes of the parts.\<close>

lemma written_size_in_parts:
  assumes "path_exists os input_csv" and "read_csv os input_csv 50000 = yields cs"
    and "a \<in> set (map snd (written (convert_csv_to_excel os input_csv pa P)))"
  shows "\<exists>r\<in>set (parts P [] (map rows cs)). length r = length (rows a)"
proof -
  let ?W = "written (convert_csv_to_excel os input_csv pa P)"
  have "length (rows a) \<in> set (map (\<lambda>w. length (rows (snd w))) ?W)" using assms(3) by auto
  then have "length (rows a) \<in> set (take (length ?W) (map length (parts P [] (map rows cs))))"
    by (simp only: run_sizes [OF assms(1,2)])
  then have "length (rows a) \<in> set (map length (parts P [] (map rows cs)))"
    by (rule in_set_takeD)
  then show ?thesis by auto
qed

lemma written_butlast_size_in_parts:
  assumes "path_exists os input_csv" and "read_csv os input_csv 50000 = yields cs"
    and "a \<in> set (butlast (map snd (written (convert_csv_to_excel os input_csv pa P))))"
  shows "\<exists>r\<in>set (butlast (parts P [] (map rows cs))). length r = length (rows a)"
proof -
  let ?W = "written (convert_csv_to_excel os input_csv pa P)"
  let ?L = "map length (parts P [] (map rows cs))"
  have "length (rows a) \<in> set (map (\<lambda>a. length (rows a)) (butlast (map snd ?W)))"
    using assms(3) by auto
  also have "map (\<lambda>a. length (rows a)) (butlast (map snd ?W))
               = butlast (map (\<lambda>w. length (rows (snd w))) ?W)"
    by (simp add: map_butlast comp_def)
  also have "\<dots> = butlast (take (length ?W) ?L)" by (simp only: run_sizes [OF assms(1,2)])
  finally have "length (rows a) \<in> set (butlast ?L)" using butlast_take_subset by fast
  then have "length (rows a) \<in> set (map length (butlast (parts P [] (map rows cs))))"
    by (simp add: map_butlast)
  then show ?thesis by auto
qed

section \<open>The claims\<close>

text \<open>
  C7. When the input path does not exist, the run prints the error message, makes no
  \<^verbatim>\<open>to_excel\<close> call, leaves no file and exits with status 1; the reader is never
  consulted, so the result is the same whatever \<^verbatim>\<open>pd.read_csv\<close> would have done. The same
  holds when the script is started from the command line.
\<close>

theorem missing_input_exits_1:
  assumes "\<not> path_exists os input_csv"
  shows "convert_csv_to_excel os input_csv pa P
           = \<lparr>printed = [''Error: The file '' @ quoted input_csv @ '' does not exist.''],
              written = [], on_disk = Map.empty, exit_status = 1\<rparr>
         \<and> convert_csv_to_excel (os\<lparr>read_csv := rd\<rparr>) input_csv pa P
           = convert_csv_to_excel os input_csv pa P
         \<and> written (main os input_csv rows_arg) = []
         \<and> on_disk (main os input_csv rows_arg) = Map.empty
         \<and> exit_status (main os input_csv rows_arg) = 1"
  using assms by (simp add: convert_csv_to_excel_def main_def Let_def)

theorem missing_input_exits_1_witness:
  "\<not> path_exists (single_file_os ''data.csv'' [chunk [1, 2], chunk [3]]) ''other.csv''
   \<and> written (main (single_file_os ''data.csv'' [chunk [1, 2], chunk [3]]) ''other.csv'' (Some 2)) = []
   \<and> exit_status (main (single_file_os ''data.csv'' [chunk [1, 2], chunk [3]]) ''other.csv'' (Some 2)) = 1"
proof -
  let ?os = "single_file_os ''data.csv'' [chunk [1, 2], chunk [3]]"
  have h: "\<not> path_exists ?os ''other.csv''" by (simp add: single_file_os_simps)
  show ?thesis
    using h missing_input_exits_1 [OF h, of None 2 "read_csv ?os" "Some 2"] by simp
qed

text \<open>
  C6. A \<^verbatim>\<open>--rows\<close> value above 1,000,000 is replaced by 1,000,000 before the splitter runs,
  and the two warning lines are printed first; a value of at most 1,000,000 is passed on
  unchanged; without the flag the splitter runs with 500,000.
\<close>

theorem rows_clamped_to_million:
  "main os input_csv (Some r) =
     (if r > 1000000 then
        (convert_csv_to_excel os input_csv None 1000000)
          \<lparr>printed := [''Warning: Excel cannot hold more than 1,048,576 rows per sheet.'',
                       ''Resetting rows limit to 1,000,000.'']
                      @ printed (convert_csv_to_excel os input_csv None 1000000)\<rparr>
      else convert_csv_to_excel os input_csv None r)
   \<and> main os input_csv None = convert_csv_to_excel os input_csv None 500000"
  by (simp add: main_def Let_def)

theorem rows_clamped_to_million_witness:
  "written (main (single_file_os ''data.csv'' [chunk [1, 2], chunk [3]]) ''data.csv'' (Some 2000000))
     = written (convert_csv_to_excel (single_file_os ''data.csv'' [chunk [1, 2], chunk [3]]) ''data.csv'' None 1000000)
   \<and> take 2 (printed (main (single_file_os ''data.csv'' [chunk [1, 2], chunk [3]]) ''data.csv'' (Some 2000000)))
     = [''Warning: Excel cannot hold more than 1,048,576 rows per sheet.'',
        ''Resetting rows limit to 1,000,000.'']
   \<and> main (single_file_os ''data.csv'' [chunk [1, 2], chunk [3]]) ''data.csv'' (Some 1000000)
     = convert_csv_to_excel (single_file_os ''data.csv'' [chunk [1, 2], chunk [3]]) ''data.csv'' None 1000000"
  using rows_clamped_to_million [of "single_file_os ''data.csv'' [chunk [1, 2], chunk [3]]" "''data.csv''" 2000000]
    rows_clamped_to_million [of "single_file_os ''data.csv'' [chunk [1, 2], chunk [3]]" "''data.csv''" 1000000]
  by simp

text \<open>
  C2. When the reader delivers chunks of exactly 50,000 rows, the last one possibly shorter,
  and \<^verbatim>\<open>rows_per_file\<close> is at most 1,000,000, no artifact holds more than 1,048,576
  rows: the running count is a multiple of 50,000 whenever it is compared with the threshold
  before the last chunk, so it never passes 1,000,000. This holds whether or not a write
  fails.
\<close>

theorem artifacts_below_sheet_ceiling:
  assumes "path_exists os input_csv" and "read_csv os input_csv 50000 = yields cs"
    and "fixed_size_units 50000 cs" and "P \<le> 1000000"
    and "a \<in> set (map snd (written (convert_csv_to_excel os input_csv pa P)))"
  shows "length (rows a) \<le> 1048576"
proof -
  obtain r where r: "r \<in> set (parts P [] (map rows cs))" and l: "length r = length (rows a)"
    using written_size_in_parts [OF assms(1,2,5)] by blast
  have f: "fixed_size 50000 (map rows cs)" using assms(3) by (simp add: fixed_size_units_rows)
  have "length r \<le> 50000 * 20"
    using parts_ceiling [OF f, of "[]" 0 P 20 r] assms(4) r by simp
  then show ?thesis using l by simp
qed

theorem artifacts_below_sheet_ceiling_witness:
  "fixed_size_units 50000 [chunk [1, 2, 3, 4]]
   \<and> chunk [1, 2, 3, 4]
       \<in> set (map snd (written (convert_csv_to_excel (single_file_os ''data.csv'' [chunk [1, 2, 3, 4]])
                                  ''data.csv'' None 3)))
   \<and> length (rows (chunk [1, 2, 3, 4])) \<le> 1048576"
proof -
  let ?os = "single_file_os ''data.csv'' [chunk [1, 2, 3, 4]]"
  have h1: "path_exists ?os ''data.csv''" by (simp add: single_file_os_simps)
  have h2: "read_csv ?os ''data.csv'' 50000 = yields [chunk [1, 2, 3, 4]]"
    by (simp add: single_file_os_simps)
  have h3: "fixed_size_units 50000 [chunk [1, 2, 3, 4]]" by (simp add: chunk_simps)
  have h4: "(3 :: int) \<le> 1000000" by simp
  have c: "list_all (\<lambda>c. columns c = [''id'']) [chunk [1, 2, 3, 4]]" by (simp add: chunk_simps)
  have "map snd (written (convert_csv_to_excel ?os ''data.csv'' None 3)) = [chunk [1, 2, 3, 4]]"
    by (simp only: run_frames_complete [OF h2 c single_file_os_exit])
       (simp add: chunk_def)
  then have h5: "chunk [1, 2, 3, 4]
              \<in> set (map snd (written (convert_csv_to_excel ?os ''data.csv'' None 3)))"
    by simp
  show ?thesis
    using h3 h5 artifacts_below_sheet_ceiling [OF h1 h2 h3 h4 h5] by simp
qed

text \<open>
  C3. When no chunk holds more than 50,000 rows and \<^verbatim>\<open>rows_per_file\<close> is positive, every
  artifact but the last holds at least \<^verbatim>\<open>rows_per_file\<close> rows, and every artifact holds at
  most \<^verbatim>\<open>rows_per_file\<close> + 50,000 - 1 rows.
\<close>

theorem artifact_sizes_around_threshold:
  assumes "path_exists os input_csv" and "read_csv os input_csv 50000 = yields cs"
    and "\<forall>c\<in>set cs. length (rows c) \<le> 50000" and "0 < P"
  shows "(\<forall>a\<in>set (butlast (map snd (written (convert_csv_to_excel os input_csv pa P)))).
            P \<le> int (length (rows a)))
         \<and> (\<forall>a\<in>set (map snd (written (convert_csv_to_excel os input_csv pa P))).
            int (length (rows a)) \<le> P + 50000 - 1)"
proof (intro conjI ballI)
  fix a assume "a \<in> set (butlast (map snd (written (convert_csv_to_excel os input_csv pa P))))"
  then obtain r where "r \<in> set (butlast (parts P [] (map rows cs)))"
    and "length r = length (rows a)"
    using written_butlast_size_in_parts [OF assms(1,2)] by blast
  then show "P \<le> int (length (rows a))" using parts_lower [of r P "[]" "map rows cs"] by simp
next
  fix a assume "a \<in> set (map snd (written (convert_csv_to_excel os input_csv pa P)))"
  then obtain r where r: "r \<in> set (parts P [] (map rows cs))"
    and l: "length r = length (rows a)"
    using written_size_in_parts [OF assms(1,2)] by blast
  have b: "\<forall>c\<in>set (map rows cs). int (length c) \<le> 50000" using assms(3) by auto
  show "int (length (rows a)) \<le> P + 50000 - 1"
    using parts_upper [of "[]" P "map rows cs" 50000 r] b assms(4) r l by simp
qed

theorem artifact_sizes_around_threshold_witness:
  "list_all (\<lambda>a. (3 :: int) \<le> int (length (rows a)))
     (butlast (map snd (written (convert_csv_to_excel
        (single_file_os ''data.csv'' [chunk [1, 2], chunk [3, 4], chunk [5]]) ''data.csv'' None 3))))
   \<and> list_all (\<lambda>a. int (length (rows a)) \<le> 3 + 50000 - 1)
     (map snd (written (convert_csv_to_excel
        (single_file_os ''data.csv'' [chunk [1, 2], chunk [3, 4], chunk [5]]) ''data.csv'' None 3)))
   \<and> map snd (written (convert_csv_to_excel
        (single_file_os ''data.csv'' [chunk [1, 2], chunk [3, 4], chunk [5]]) ''data.csv'' None 3))
       = [chunk [1, 2, 3, 4], chunk [5]]"
proof -
  let ?cs = "[chunk [1, 2], chunk [3, 4], chunk [5]]"
  let ?os = "single_file_os ''data.csv'' ?cs"
  have h1: "path_exists ?os ''data.csv''" by (simp add: single_file_os_simps)
  have h2: "read_csv ?os ''data.csv'' 50000 = yields ?cs" by (simp add: single_file_os_simps)
  have h3: "\<forall>c\<in>set ?cs. length (rows c) \<le> 50000" by (simp add: chunk_simps)
  have h4: "(0 :: int) < 3" by simp
  have c: "list_all (\<lambda>c. columns c = [''id'']) ?cs" by (simp add: chunk_simps)
  have v: "map snd (written (convert_csv_to_excel ?os ''data.csv'' None 3))
             = [chunk [1, 2, 3, 4], chunk [5]]"
    by (simp only: run_frames_complete [OF h2 c single_file_os_exit])
       (simp add: chunk_def)
  show ?thesis
    using artifact_sizes_around_threshold [OF h1 h2 h3 h4, of None] v
    by (simp only: list_all_iff) simp
qed

text \<open>
  C9, as the code has it. When every chunk the reader delivers holds at least one row, every
  artifact holds at least one row, whatever \<^verbatim>\<open>rows_per_file\<close> is. A chunk without rows
  is written out like any other: the test before the trailing write is on the list of chunks,
  not on their rows.
\<close>

theorem nonempty_units_nonempty_artifacts:
  assumes "path_exists os input_csv" and "read_csv os input_csv 50000 = yields cs"
    and "[] \<notin> set (map rows cs)"
  shows "[] \<notin> set (map (\<lambda>w. rows (snd w)) (written (convert_csv_to_excel os input_csv pa P)))"
proof
  assume "[] \<in> set (map (\<lambda>w. rows (snd w)) (written (convert_csv_to_excel os input_csv pa P)))"
  then obtain w where "w \<in> set (written (convert_csv_to_excel os input_csv pa P))"
    and "rows (snd w) = []" by auto
  then have "\<exists>a. a \<in> set (map snd (written (convert_csv_to_excel os input_csv pa P)))
               \<and> rows a = []" by (intro exI [of _ "snd w"]) simp
  then obtain a where a: "a \<in> set (map snd (written (convert_csv_to_excel os input_csv pa P)))"
    and e: "rows a = []" by blast
  obtain r where r: "r \<in> set (parts P [] (map rows cs))" and "length r = length (rows a)"
    using written_size_in_parts [OF assms(1,2) a] by blast
  then have "r = []" using e by simp
  then show False using parts_nonempty [of "[]" "map rows cs" P] assms(3) r by simp
qed

theorem nonempty_units_nonempty_artifacts_witness:
  "path_exists (single_file_os ''data.csv'' [chunk [1, 2], chunk [3]]) ''data.csv''
   \<and> [] \<notin> set (map rows [chunk [1, 2], chunk [3]])
   \<and> [] \<notin> set (map (\<lambda>w. rows (snd w)) (written (convert_csv_to_excel
                 (single_file_os ''data.csv'' [chunk [1, 2], chunk [3]]) ''data.csv'' None 2)))"
proof -
  let ?cs = "[chunk [1, 2], chunk [3]]"
  let ?os = "single_file_os ''data.csv'' ?cs"
  have h1: "path_exists ?os ''data.csv''" by (simp add: single_file_os_simps)
  have h2: "read_csv ?os ''data.csv'' 50000 = yields ?cs" by (simp add: single_file_os_simps)
  have h3: "[] \<notin> set (map rows ?cs)" by (simp add: chunk_simps)
  show ?thesis
    using h1 h3 nonempty_units_nonempty_artifacts [OF h1 h2 h3, of None 2] by blast
qed

text \<open>
  C9 as stated fails for a chunk without rows, which is what the reader delivers for a file
  that holds only its header line: with the default threshold of 500,000 the loop does not
  write, the list of chunks is not empty after the loop, and the trailing write makes part 1
  with no rows.
\<close>

theorem empty_unit_empty_artifact:
  "written (convert_csv_to_excel (single_file_os ''data.csv'' [chunk []])
              ''data.csv'' None 500000) = [(''data_part1.xlsx'', chunk [])]
   \<and> on_disk (convert_csv_to_excel (single_file_os ''data.csv'' [chunk []])
              ''data.csv'' None 500000) ''data_part1.xlsx'' = Some \<lparr>header = [''id''], body = []\<rparr>"
proof -
  let ?os = "single_file_os ''data.csv'' [chunk []]"
  have h1: "path_exists ?os ''data.csv''" by (simp add: single_file_os_simps)
  have h2: "read_csv ?os ''data.csv'' 50000 = yields [chunk []]"
    by (simp add: single_file_os_simps)
  have c: "list_all (\<lambda>c. columns c = [''id'']) [chunk []]" by (simp add: chunk_simps)
  have w: "written (convert_csv_to_excel ?os ''data.csv'' None 500000)
             = [(''data_part1.xlsx'', chunk [])]"
    by (simp only: run_frames_complete [OF h2 c single_file_os_exit] prefix_data)
       (simp add: chunk_def output_filename_data)
  have "on_disk (convert_csv_to_excel ?os ''data.csv'' None 500000)
          = put_all [(''data_part1.xlsx'', chunk [])] Map.empty"
    by (simp only: convert_run(2) [OF h1] w)
  then show ?thesis using w by (simp add: sheet_of_def chunk_simps)
qed

text \<open>
  A run in the directory that cannot be written: the input is \<^verbatim>\<open>ro/data.csv\<close>, so the
  prefix is \<^verbatim>\<open>ro/data\<close>, and the reader delivers one chunk that reaches the threshold. The
  flush fails, nothing is written and the run exits with status 1.
\<close>

lemma readonly_dir_run:
  assumes "P \<le> int (length (rows c))"
  shows "written (convert_csv_to_excel (readonly_dir_os ''ro/data.csv'' [c])
                    ''ro/data.csv'' None P) = []"
    and "on_disk (convert_csv_to_excel (readonly_dir_os ''ro/data.csv'' [c])
                    ''ro/data.csv'' None P) = Map.empty"
    and "exit_status (convert_csv_to_excel (readonly_dir_os ''ro/data.csv'' [c])
                    ''ro/data.csv'' None P) = 1"
proof -
  let ?os = "readonly_dir_os ''ro/data.csv'' [c]"
  let ?p = "convert_csv_to_excel ?os ''ro/data.csv'' None P"
  have h1: "path_exists ?os ''ro/data.csv''"
    by (simp add: readonly_dir_os_def single_file_os_simps)
  have it: "read_csv ?os ''ro/data.csv'' 50000 = yields [c]"
    by (simp add: readonly_dir_os_def single_file_os_simps)
  have pre: "chosen_prefix ?os ''ro/data.csv'' None = ''ro/data''"
    by (simp add: chosen_prefix_def readonly_dir_os_def single_file_os_simps)
  have g: "groups P [] (yields [c]) = [[c]]" using assms by simp
  have "pd_concat ?os [c] = Inr c"
    by (rule pd_concat_single) (simp add: readonly_dir_os_def single_file_os_simps)
  then have w: "write_one ?os ''ro/data'' 1 [c] = Inl ''[Errno 13] Permission denied''"
    by (simp add: write_one_def readonly_dir_os_def output_filename_def)
  show w0: "written ?p = []" by (simp add: convert_run(1) [OF h1] it pre g w)
  show "on_disk ?p = Map.empty" by (simp add: convert_run(2) [OF h1] w0)
  show "exit_status ?p = 1"
    by (simp add: convert_run(3) [OF h1] it pre g w first_error_def)
qed

section \<open>Sums over the files on disk\<close>

lemma disk_lookup:
  assumes "path_exists os input_csv"
  shows "map (on_disk (convert_csv_to_excel os input_csv pa P))
           (map fst (written (convert_csv_to_excel os input_csv pa P)))
         = map (\<lambda>w. Some (sheet_of (snd w))) (written (convert_csv_to_excel os input_csv pa P))"
  by (simp only: convert_run(2) [OF assms] put_all_distinct [OF run_names(2) [OF assms]])

lemma sum_over_disk:
  fixes h :: "'v sheet \<Rightarrow> 'b :: comm_monoid_add"
  assumes "path_exists os input_csv"
  shows "(\<Sum>f\<in>dom (on_disk (convert_csv_to_excel os input_csv pa P)).
            h (the (on_disk (convert_csv_to_excel os input_csv pa P) f)))
         = sum_list (map (\<lambda>w. h (sheet_of (snd w)))
             (written (convert_csv_to_excel os input_csv pa P)))"
proof -
  let ?p = "convert_csv_to_excel os input_csv pa P"
  have "(\<Sum>f\<in>dom (on_disk ?p). h (the (on_disk ?p f)))
          = (\<Sum>f\<in>set (map fst (written ?p)). h (the (on_disk ?p f)))"
    by (simp only: run_disk(2) [OF assms])
  also have "\<dots> = sum_list (map (\<lambda>f. h (the (on_disk ?p f))) (map fst (written ?p)))"
    by (rule sum.distinct_set_conv_list [OF run_names(2) [OF assms]])
  also have "map (\<lambda>f. h (the (on_disk ?p f))) (map fst (written ?p))
               = map (\<lambda>x. h (the x)) (map (on_disk ?p) (map fst (written ?p)))"
    by (simp add: comp_def)
  also have "\<dots> = map (\<lambda>w. h (sheet_of (snd w))) (written ?p)"
    by (simp only: disk_lookup [OF assms]) (simp add: comp_def)
  finally show ?thesis .
qed

lemma exit_0_exists:
  "exit_status (convert_csv_to_excel os input_csv pa P) = 0 \<Longrightarrow> path_exists os input_csv"
  by (auto simp: convert_csv_to_excel_def split: if_splits)

lemma run_sizes_complete:
  assumes "read_csv os input_csv 50000 = yields cs"
    and "exit_status (convert_csv_to_excel os input_csv pa P) = 0"
  shows "map (\<lambda>w. length (rows (snd w))) (written (convert_csv_to_excel os input_csv pa P))
           = map length (parts P [] (map rows cs))"
proof -
  have ex: "path_exists os input_csv" by (rule exit_0_exists [OF assms(2)])
  have "length (written (convert_csv_to_excel os input_csv pa P))
          = length (parts P [] (map rows cs))"
    using run_complete [OF ex assms(1)] assms(2) by simp
  then show ?thesis using run_sizes [OF ex assms(1), of pa P] by simp
qed

text \<open>
  C1, as the code has it. In a run that ends with status 0 (the reader delivers the chunks
  \<open>cs\<close>, and no call raises), the row counts of the spreadsheet files on disk sum to the
  number of input rows, for every \<^verbatim>\<open>rows_per_file\<close>; and, the chunks having the same
  column names, the rows in these files are the input rows, each as often as it occurs in the
  input. The sum is over the files by name, so every part is a file of its own.
\<close>

theorem artifact_rows_sum_to_input:
  assumes "read_csv os input_csv 50000 = yields cs"
    and "exit_status (convert_csv_to_excel os input_csv pa P) = 0"
  shows "(\<Sum>f\<in>dom (on_disk (convert_csv_to_excel os input_csv pa P)).
            length (body (the (on_disk (convert_csv_to_excel os input_csv pa P) f))))
           = length (concat (map rows cs))
         \<and> (list_all (\<lambda>c. columns c = cols) cs \<longrightarrow>
              (\<Sum>f\<in>dom (on_disk (convert_csv_to_excel os input_csv pa P)).
                 mset (body (the (on_disk (convert_csv_to_excel os input_csv pa P) f))))
              = mset (concat (map rows cs)))"
proof (intro conjI impI)
  let ?p = "convert_csv_to_excel os input_csv pa P"
  have ex: "path_exists os input_csv" by (rule exit_0_exists [OF assms(2)])
  have "(\<Sum>f\<in>dom (on_disk ?p). length (body (the (on_disk ?p f))))
          = sum_list (map (\<lambda>w. length (body (sheet_of (snd w)))) (written ?p))"
    by (rule sum_over_disk [OF ex])
  also have "\<dots> = sum_list (map (\<lambda>w. length (rows (snd w))) (written ?p))"
    by (simp add: sheet_of_def)
  also have "\<dots> = sum_list (map length (parts P [] (map rows cs)))"
    by (simp only: run_sizes_complete [OF assms])
  also have "\<dots> = length (concat (parts P [] (map rows cs)))" by (simp add: length_concat)
  finally show "(\<Sum>f\<in>dom (on_disk ?p). length (body (the (on_disk ?p f))))
                  = length (concat (map rows cs))"
    by (simp add: concat_parts)
next
  let ?p = "convert_csv_to_excel os input_csv pa P"
  assume same: "list_all (\<lambda>c. columns c = cols) cs"
  have ex: "path_exists os input_csv" by (rule exit_0_exists [OF assms(2)])
  have "(\<Sum>f\<in>dom (on_disk ?p). mset (body (the (on_disk ?p f))))
          = sum_list (map (\<lambda>w. mset (body (sheet_of (snd w)))) (written ?p))"
    by (rule sum_over_disk [OF ex])
  also have "\<dots> = sum_list (map mset (map (\<lambda>w. rows (snd w)) (written ?p)))"
    by (simp add: sheet_of_def comp_def)
  also have "\<dots> = sum_list (map mset (parts P [] (map rows cs)))"
    by (simp only: run_frames_complete [OF assms(1) same assms(2)] map_rows_name_frames)
  also have "\<dots> = mset (concat (parts P [] (map rows cs)))" by (simp add: mset_concat)
  finally show "(\<Sum>f\<in>dom (on_disk ?p). mset (body (the (on_disk ?p f))))
                  = mset (concat (map rows cs))"
    by (simp add: concat_parts)
qed

theorem artifact_rows_sum_to_input_witness:
  "read_csv (single_file_os ''data.csv'' [chunk [1, 2], chunk [3], chunk [4]]) ''data.csv'' 50000
       = yields [chunk [1, 2], chunk [3], chunk [4]]
   \<and> exit_status (convert_csv_to_excel
         (single_file_os ''data.csv'' [chunk [1, 2], chunk [3], chunk [4]]) ''data.csv'' None 3) = 0
   \<and> (\<Sum>f\<in>dom (on_disk (convert_csv_to_excel
              (single_file_os ''data.csv'' [chunk [1, 2], chunk [3], chunk [4]]) ''data.csv'' None 3)).
          length (body (the (on_disk (convert_csv_to_excel
              (single_file_os ''data.csv'' [chunk [1, 2], chunk [3], chunk [4]]) ''data.csv'' None 3) f))))
       = 4"
proof -
  let ?cs = "[chunk [1, 2], chunk [3], chunk [4]]"
  let ?os = "single_file_os ''data.csv'' ?cs"
  have h1: "read_csv ?os ''data.csv'' 50000 = yields ?cs" by (simp add: single_file_os_simps)
  have h2: "exit_status (convert_csv_to_excel ?os ''data.csv'' None 3) = 0"
    by (rule single_file_os_exit)
  have "length (concat (map rows ?cs)) = 4" by (simp add: chunk_simps)
  then show ?thesis
    using h1 h2 artifact_rows_sum_to_input [OF h1 h2, of "[''id'']"] by simp
qed

text \<open>
  C1 as stated fails for a run in which a write fails: in a directory that cannot be written,
  with an input of 4 rows and a threshold of 3, the first \<^verbatim>\<open>to_excel\<close> raises, the run
  exits with status 1 and no file holds any of the 4 rows.
\<close>

theorem failed_write_leaves_rows_unwritten:
  "length (concat (map rows [chunk [5, 6, 7, 8]])) = 4
   \<and> dom (on_disk (convert_csv_to_excel (readonly_dir_os ''ro/data.csv'' [chunk [5, 6, 7, 8]])
                      ''ro/data.csv'' None 3)) = {}
   \<and> exit_status (convert_csv_to_excel (readonly_dir_os ''ro/data.csv'' [chunk [5, 6, 7, 8]])
                      ''ro/data.csv'' None 3) = 1"
  by (simp add: readonly_dir_run chunk_simps)

text \<open>
  C4, as the code has it. In a run that ends with status 0, the chunks having the column names
  \<open>cols\<close>: the files on disk are as many as the calls completed, the file of part \<open>k\<close> holds the
  sheet of the \<open>k\<close>-th call, every sheet has the column names \<open>cols\<close> in its first row, and the
  rows of the sheets, taken in the order of the parts, are exactly the rows of the input in
  their order.
\<close>

theorem artifacts_concat_to_input:
  assumes "read_csv os input_csv 50000 = yields cs"
    and "list_all (\<lambda>c. columns c = cols) cs"
    and "exit_status (convert_csv_to_excel os input_csv pa P) = 0"
  shows "parts_on_disk (convert_csv_to_excel os input_csv pa P) (chosen_prefix os input_csv pa)
           (length (sheets_written (convert_csv_to_excel os input_csv pa P)))
           = map Some (sheets_written (convert_csv_to_excel os input_csv pa P))
         \<and> card (dom (on_disk (convert_csv_to_excel os input_csv pa P)))
           = length (sheets_written (convert_csv_to_excel os input_csv pa P))
         \<and> list_all (\<lambda>a. header a = cols) (sheets_written (convert_csv_to_excel os input_csv pa P))
         \<and> concat (map body (sheets_written (convert_csv_to_excel os input_csv pa P)))
           = concat (map rows cs)"
proof -
  let ?p = "convert_csv_to_excel os input_csv pa P"
  let ?pre = "chosen_prefix os input_csv pa"
  have ex: "path_exists os input_csv" by (rule exit_0_exists [OF assms(3)])
  have w: "written ?p = name_frames ?pre cols 1 (parts P [] (map rows cs))"
    by (rule run_frames_complete [OF assms])
  have 1: "parts_on_disk ?p ?pre (length (sheets_written ?p)) = map Some (sheets_written ?p)"
    using run_disk(1) [OF ex, of pa P] by (simp add: sheets_written_def comp_def)
  have 2: "card (dom (on_disk ?p)) = length (sheets_written ?p)"
    using run_disk(3) [OF ex, of pa P] by (simp add: sheets_written_def)
  have 3: "list_all (\<lambda>a. header a = cols) (sheets_written ?p)"
    by (auto simp: sheets_written_def list_all_iff sheet_of_def w dest: columns_name_frames)
  have "map body (sheets_written ?p) = map (\<lambda>w. rows (snd w)) (written ?p)"
    by (simp add: sheets_written_def sheet_of_def comp_def)
  also have "\<dots> = parts P [] (map rows cs)" by (simp only: w map_rows_name_frames)
  finally have 4: "concat (map body (sheets_written ?p)) = concat (map rows cs)"
    by (simp add: concat_parts)
  show ?thesis using 1 2 3 4 by blast
qed

theorem artifacts_concat_to_input_witness:
  "exit_status (convert_csv_to_excel
       (single_file_os ''data.csv'' [chunk [5, 6], chunk [7], chunk [8]]) ''data.csv'' None 3) = 0
   \<and> parts_on_disk (convert_csv_to_excel
       (single_file_os ''data.csv'' [chunk [5, 6], chunk [7], chunk [8]]) ''data.csv'' None 3)
       ''data'' 2
     = [Some \<lparr>header = [''id''], body = [[5], [6], [7]]\<rparr>, Some \<lparr>header = [''id''], body = [[8]]\<rparr>]
   \<and> concat (map rows [chunk [5, 6], chunk [7], chunk [8]]) = [[5], [6], [7], [8]]"
proof -
  let ?cs = "[chunk [5, 6], chunk [7], chunk [8]]"
  let ?os = "single_file_os ''data.csv'' ?cs"
  let ?p = "convert_csv_to_excel ?os ''data.csv'' None 3"
  have h1: "read_csv ?os ''data.csv'' 50000 = yields ?cs" by (simp add: single_file_os_simps)
  have h2: "list_all (\<lambda>c. columns c = [''id'']) ?cs" by (simp add: chunk_simps)
  have h3: "exit_status ?p = 0" by (rule single_file_os_exit)
  have s: "sheets_written ?p
             = [\<lparr>header = [''id''], body = [[5], [6], [7]]\<rparr>, \<lparr>header = [''id''], body = [[8]]\<rparr>]"
    by (simp only: sheets_written_def run_frames_complete [OF h1 h2 h3])
       (simp add: chunk_simps sheet_of_def)
  show ?thesis
    using h3 artifacts_concat_to_input [OF h1 h2 h3] s
    by (simp add: prefix_data chunk_simps numeral_2_eq_2)
qed

text \<open>
  C4 as stated fails for a run in which a write fails: in a directory that cannot be written,
  with an input of 4 rows and a threshold of 3, no call is completed and there is no file of
  part 1, so the artifacts do not give back the 4 rows.
\<close>

theorem failed_write_no_reconstruction:
  "concat (map rows [chunk [5, 6, 7, 8]]) = [[5], [6], [7], [8]]
   \<and> sheets_written (convert_csv_to_excel (readonly_dir_os ''ro/data.csv'' [chunk [5, 6, 7, 8]])
                        ''ro/data.csv'' None 3) = []
   \<and> parts_on_disk (convert_csv_to_excel (readonly_dir_os ''ro/data.csv'' [chunk [5, 6, 7, 8]])
                        ''ro/data.csv'' None 3) ''ro/data'' 1 = [None]"
  by (simp add: readonly_dir_run chunk_simps sheets_written_def parts_on_disk_def)

text \<open>
  C5, as the code has it. For a run that ends with status 0, a positive \<^verbatim>\<open>rows_per_file\<close>
  P and a reader that delivers chunks of exactly 50,000 rows, the last one possibly shorter,
  with the column names \<open>cols\<close>: an input of no rows leaves no file when the reader delivers no
  chunk, and part 1 without rows when it delivers a chunk without rows; when no chunk is
  empty, an input of exactly P rows leaves part 1 alone, with these P rows, and an input of
  P + 1 rows leaves part 1 with P rows and part 2 with one row when 50,000 divides P, and part
  1 alone, with all P + 1 rows, otherwise. Parts 1 and 2 are different files.
\<close>

theorem boundary_inputs:
  assumes "read_csv os input_csv 50000 = yields cs"
    and "list_all (\<lambda>c. columns c = cols) cs"
    and "fixed_size_units 50000 cs" and "0 < P"
    and "exit_status (convert_csv_to_excel os input_csv pa P) = 0"
  shows "(length (concat (map rows cs)) = 0 \<longrightarrow>
            on_disk (convert_csv_to_excel os input_csv pa P) =
              (if cs = [] then Map.empty
               else [output_filename (chosen_prefix os input_csv pa) 1
                       \<mapsto> \<lparr>header = cols, body = []\<rparr>]))
         \<and> ([] \<notin> set (map rows cs) \<and> int (length (concat (map rows cs))) = P \<longrightarrow>
            on_disk (convert_csv_to_excel os input_csv pa P) =
              [output_filename (chosen_prefix os input_csv pa) 1
                 \<mapsto> \<lparr>header = cols, body = concat (map rows cs)\<rparr>])
         \<and> ([] \<notin> set (map rows cs) \<and> int (length (concat (map rows cs))) = P + 1 \<longrightarrow>
            on_disk (convert_csv_to_excel os input_csv pa P) =
              (if 50000 dvd P then
                 [output_filename (chosen_prefix os input_csv pa) 1
                    \<mapsto> \<lparr>header = cols, body = take (nat P) (concat (map rows cs))\<rparr>,
                  output_filename (chosen_prefix os input_csv pa) 2
                    \<mapsto> \<lparr>header = cols, body = drop (nat P) (concat (map rows cs))\<rparr>]
               else
                 [output_filename (chosen_prefix os input_csv pa) 1
                    \<mapsto> \<lparr>header = cols, body = concat (map rows cs)\<rparr>]))
         \<and> output_filename (chosen_prefix os input_csv pa) 1
             \<noteq> output_filename (chosen_prefix os input_csv pa) 2"
proof (intro conjI impI)
  let ?p = "convert_csv_to_excel os input_csv pa P"
  let ?pre = "chosen_prefix os input_csv pa"
  let ?rs = "map rows cs"
  have ex: "path_exists os input_csv" by (rule exit_0_exists [OF assms(5)])
  have d: "on_disk ?p = put_all (name_frames ?pre cols 1 (parts P [] ?rs)) Map.empty"
    by (simp only: convert_run(2) [OF ex] run_frames_complete [OF assms(1,2,5)])
  have f: "fixed_size 50000 ?rs" using assms(3) by (simp add: fixed_size_units_rows)
  {
    assume "length (concat ?rs) = 0"
    then have "parts P [] ?rs = (if ?rs = [] then [] else [[]])"
      using parts_no_rows [of "[]" ?rs P] assms(4) by simp
    then show "on_disk ?p =
        (if cs = [] then Map.empty else [output_filename ?pre 1 \<mapsto> \<lparr>header = cols, body = []\<rparr>])"
      by (simp add: d sheet_of_def)
  }
  {
    assume "[] \<notin> set ?rs \<and> int (length (concat ?rs)) = P"
    then have "parts P [] ?rs = [concat ?rs]"
      using parts_exact [of ?rs P] assms(4) by blast
    then show "on_disk ?p = [output_filename ?pre 1 \<mapsto> \<lparr>header = cols, body = concat ?rs\<rparr>]"
      by (simp add: d sheet_of_def)
  }
  {
    assume "[] \<notin> set ?rs \<and> int (length (concat ?rs)) = P + 1"
    then have ne: "[] \<notin> set ?rs" and r: "int (length (concat ?rs)) = P + 1" by blast+
    show "on_disk ?p =
        (if 50000 dvd P then
           [output_filename ?pre 1 \<mapsto> \<lparr>header = cols, body = take (nat P) (concat ?rs)\<rparr>,
            output_filename ?pre 2 \<mapsto> \<lparr>header = cols, body = drop (nat P) (concat ?rs)\<rparr>]
         else [output_filename ?pre 1 \<mapsto> \<lparr>header = cols, body = concat ?rs\<rparr>])"
    proof (cases "(50000 :: int) dvd P")
      case True
      then have "int 50000 dvd P" by simp
      then have "parts P [] ?rs = [take (nat P) (concat ?rs), drop (nat P) (concat ?rs)]"
        using parts_one_more_split [OF f ne assms(4) r] by simp
      then show ?thesis using True by (simp add: d sheet_of_def)
    next
      case False
      then have "\<not> int 50000 dvd P" by simp
      then have "parts P [] ?rs = [concat ?rs]"
        using parts_one_more_single [OF f ne assms(4) r] by simp
      then show ?thesis using False by (simp add: d sheet_of_def)
    qed
  }
  show "output_filename ?pre 1 \<noteq> output_filename ?pre 2"
    using output_filename_inj [of ?pre 1 2] by auto
qed

theorem boundary_inputs_witness:
  "exit_status (convert_csv_to_excel (single_file_os ''data.csv'' [chunk [5, 6, 7]])
                  ''data.csv'' None 3) = 0
   \<and> int (length (concat (map rows [chunk [5, 6, 7]]))) = 3
   \<and> on_disk (convert_csv_to_excel (single_file_os ''data.csv'' [chunk [5, 6, 7]])
                  ''data.csv'' None 3) ''data_part1.xlsx''
       = Some \<lparr>header = [''id''], body = [[5], [6], [7]]\<rparr>
   \<and> fixed_size_units 50000 [full_chunk, chunk [7]]
   \<and> int (length (concat (map rows [full_chunk, chunk [7]]))) = 50000 + 1
   \<and> on_disk (convert_csv_to_excel (single_file_os ''data.csv'' [full_chunk, chunk [7]])
                  ''data.csv'' None 50000) ''data_part1.xlsx''
       = Some \<lparr>header = [''id''], body = rows full_chunk\<rparr>
   \<and> on_disk (convert_csv_to_excel (single_file_os ''data.csv'' [full_chunk, chunk [7]])
                  ''data.csv'' None 50000) ''data_part2.xlsx''
       = Some \<lparr>header = [''id''], body = [[7]]\<rparr>"
proof -
  let ?cs = "[chunk [5, 6, 7]]"
  let ?os = "single_file_os ''data.csv'' ?cs"
  have h1: "read_csv ?os ''data.csv'' 50000 = yields ?cs" by (simp add: single_file_os_simps)
  have h2: "list_all (\<lambda>c. columns c = [''id'']) ?cs" by (simp add: chunk_simps)
  have h3: "fixed_size_units 50000 ?cs" by (simp add: chunk_simps)
  have h4: "(0 :: int) < 3" by simp
  have h5: "exit_status (convert_csv_to_excel ?os ''data.csv'' None 3) = 0"
    by (rule single_file_os_exit)
  let ?ds = "[full_chunk, chunk [7]]"
  let ?od = "single_file_os ''data.csv'' ?ds"
  have k1: "read_csv ?od ''data.csv'' 50000 = yields ?ds" by (simp add: single_file_os_simps)
  have k2: "list_all (\<lambda>c. columns c = [''id'']) ?ds" by (simp add: chunk_simps full_chunk_simps)
  have k3: "fixed_size_units 50000 ?ds" by (simp add: chunk_simps full_chunk_simps)
  have k4: "(0 :: int) < 50000" by simp
  have k5: "exit_status (convert_csv_to_excel ?od ''data.csv'' None 50000) = 0"
    by (rule single_file_os_exit)
  have ne: "rows full_chunk \<noteq> []" using full_chunk_simps(2) by auto
  have small: "on_disk (convert_csv_to_excel ?os ''data.csv'' None 3) ''data_part1.xlsx''
                 = Some \<lparr>header = [''id''], body = [[5], [6], [7]]\<rparr>"
    using boundary_inputs [OF h1 h2 h3 h4 h5]
    by (simp add: chunk_simps prefix_data output_filename_data)
  have big: "on_disk (convert_csv_to_excel ?od ''data.csv'' None 50000) ''data_part1.xlsx''
               = Some \<lparr>header = [''id''], body = rows full_chunk\<rparr>
             \<and> on_disk (convert_csv_to_excel ?od ''data.csv'' None 50000) ''data_part2.xlsx''
               = Some \<lparr>header = [''id''], body = [[7]]\<rparr>"
    using boundary_inputs [OF k1 k2 k3 k4 k5] ne
    by (simp add: chunk_simps full_chunk_simps prefix_data output_filename_data)
  show ?thesis using h5 k3 small big by (simp add: chunk_simps full_chunk_simps)
qed

text \<open>
  C5 as stated fails in three places. Where 50,000 does not divide \<^verbatim>\<open>rows_per_file\<close>:
  with a threshold of 3, an input of 4 rows arrives as a single chunk, the threshold is met
  after it, and all 4 rows go to part 1; there is no part 2. For an input without rows that the
  reader delivers as one chunk without rows (a file that holds only its header line): the
  trailing write makes part 1 with no rows. And where a write fails: in a directory that
  cannot be written, an input of exactly 3 rows with a threshold of 3 leaves no artifact.
\<close>

theorem boundary_inputs_as_stated_fail:
  "int (length (concat (map rows [chunk [5, 6, 7, 8]]))) = 3 + 1
   \<and> written (convert_csv_to_excel (single_file_os ''data.csv'' [chunk [5, 6, 7, 8]])
                ''data.csv'' None 3) = [(''data_part1.xlsx'', chunk [5, 6, 7, 8])]
   \<and> on_disk (convert_csv_to_excel (single_file_os ''data.csv'' [chunk [5, 6, 7, 8]])
                ''data.csv'' None 3) ''data_part2.xlsx'' = None
   \<and> length (concat (map rows [chunk []])) = 0
   \<and> written (convert_csv_to_excel (single_file_os ''data.csv'' [chunk []])
                ''data.csv'' None 3) = [(''data_part1.xlsx'', chunk [])]
   \<and> int (length (concat (map rows [chunk [5, 6, 7]]))) = 3
   \<and> written (convert_csv_to_excel (readonly_dir_os ''ro/data.csv'' [chunk [5, 6, 7]])
                ''ro/data.csv'' None 3) = []"
proof -
  let ?os = "single_file_os ''data.csv'' [chunk [5, 6, 7, 8]]"
  have h1: "path_exists ?os ''data.csv''" by (simp add: single_file_os_simps)
  have h2: "read_csv ?os ''data.csv'' 50000 = yields [chunk [5, 6, 7, 8]]"
    by (simp add: single_file_os_simps)
  have h3: "list_all (\<lambda>c. columns c = [''id'']) [chunk [5, 6, 7, 8]]" by (simp add: chunk_simps)
  let ?oe = "single_file_os ''data.csv'' [chunk []]"
  have e2: "read_csv ?oe ''data.csv'' 50000 = yields [chunk []]"
    by (simp add: single_file_os_simps)
  have e3: "list_all (\<lambda>c. columns c = [''id'']) [chunk []]" by (simp add: chunk_simps)
  have a: "written (convert_csv_to_excel ?os ''data.csv'' None 3)
             = [(''data_part1.xlsx'', chunk [5, 6, 7, 8])]"
    by (simp only: run_frames_complete [OF h2 h3 single_file_os_exit] prefix_data)
       (simp add: chunk_def output_filename_data)
  have "on_disk (convert_csv_to_excel ?os ''data.csv'' None 3)
          = put_all [(''data_part1.xlsx'', chunk [5, 6, 7, 8])] Map.empty"
    by (simp only: convert_run(2) [OF h1] a)
  then have a2: "on_disk (convert_csv_to_excel ?os ''data.csv'' None 3) ''data_part2.xlsx'' = None"
    by simp
  have b: "written (convert_csv_to_excel ?oe ''data.csv'' None 3) = [(''data_part1.xlsx'', chunk [])]"
    by (simp only: run_frames_complete [OF e2 e3 single_file_os_exit] prefix_data)
       (simp add: chunk_def output_filename_data)
  have c: "written (convert_csv_to_excel (readonly_dir_os ''ro/data.csv'' [chunk [5, 6, 7]])
                      ''ro/data.csv'' None 3) = []"
    by (rule readonly_dir_run) (simp add: chunk_simps)
  show ?thesis using a a2 b c by (simp add: chunk_simps)
qed

section \<open>Two runs\<close>

lemma take_take_le: "n \<le> m \<Longrightarrow> take n (take m xs) = take n xs"
  by (simp add: min.absorb1)

text \<open>
  C8, as the code has it. Take two runs, in any two environments and on any two existing
  paths, whose readers deliver the same chunks (with the same column names), with the same
  prefix and the same \<^verbatim>\<open>rows_per_file\<close>. When both end with status 0, they complete the
  same \<^verbatim>\<open>to_excel\<close> calls, with the same file names and the same frames, and leave the same
  files. In any case the calls completed by the run that completes fewer are the first calls
  of the other: the partition is the same, and the runs differ only in where a failure stops
  them.
\<close>

theorem same_input_same_artifacts:
  assumes "path_exists os1 input1" and "path_exists os2 input2"
    and "read_csv os1 input1 50000 = yields cs" and "read_csv os2 input2 50000 = yields cs"
    and "list_all (\<lambda>c. columns c = cols) cs"
    and "chosen_prefix os1 input1 pa1 = chosen_prefix os2 input2 pa2"
  shows "(exit_status (convert_csv_to_excel os1 input1 pa1 P) = 0
            \<and> exit_status (convert_csv_to_excel os2 input2 pa2 P) = 0 \<longrightarrow>
          written (convert_csv_to_excel os1 input1 pa1 P)
            = written (convert_csv_to_excel os2 input2 pa2 P)
          \<and> on_disk (convert_csv_to_excel os1 input1 pa1 P)
            = on_disk (convert_csv_to_excel os2 input2 pa2 P))
         \<and> (length (written (convert_csv_to_excel os1 input1 pa1 P))
              \<le> length (written (convert_csv_to_excel os2 input2 pa2 P)) \<longrightarrow>
            written (convert_csv_to_excel os1 input1 pa1 P)
              = take (length (written (convert_csv_to_excel os1 input1 pa1 P)))
                  (written (convert_csv_to_excel os2 input2 pa2 P)))"
proof (intro conjI impI)
  let ?p1 = "convert_csv_to_excel os1 input1 pa1 P"
  let ?p2 = "convert_csv_to_excel os2 input2 pa2 P"
  let ?F = "name_frames (chosen_prefix os2 input2 pa2) cols 1 (parts P [] (map rows cs))"
  have w1: "written ?p1 = take (length (written ?p1)) ?F"
    using run_frames [OF assms(1,3,5), of pa1 P] by (simp only: assms(6))
  have w2: "written ?p2 = take (length (written ?p2)) ?F"
    by (rule run_frames [OF assms(2,4,5)])
  {
    assume le: "length (written ?p1) \<le> length (written ?p2)"
    have "take (length (written ?p1)) (written ?p2)
            = take (length (written ?p1)) (take (length (written ?p2)) ?F)"
      using w2 by simp
    also have "\<dots> = take (length (written ?p1)) ?F" by (rule take_take_le [OF le])
    finally show "written ?p1 = take (length (written ?p1)) (written ?p2)" using w1 by simp
  }
  assume both: "exit_status ?p1 = 0 \<and> exit_status ?p2 = 0"
  have "written ?p1 = ?F"
    using run_frames_complete [OF assms(3,5), of pa1 P] both by (simp only: assms(6))
  moreover have "written ?p2 = ?F"
    using run_frames_complete [OF assms(4,5), of pa2 P] both by simp
  ultimately show "written ?p1 = written ?p2" by simp
  then show "on_disk ?p1 = on_disk ?p2"
    by (simp only: convert_run(2) [OF assms(1)] convert_run(2) [OF assms(2)])
qed

theorem same_input_same_artifacts_witness:
  "path_exists (single_file_os ''a.csv'' [chunk [5, 6], chunk [7]]) ''a.csv''
   \<and> path_exists (single_file_os ''b.csv'' [chunk [5, 6], chunk [7]]) ''b.csv''
   \<and> exit_status (convert_csv_to_excel (single_file_os ''a.csv'' [chunk [5, 6], chunk [7]])
                    ''a.csv'' (Some ''out'') 2) = 0
   \<and> exit_status (convert_csv_to_excel (single_file_os ''b.csv'' [chunk [5, 6], chunk [7]])
                    ''b.csv'' (Some ''out'') 2) = 0
   \<and> written (convert_csv_to_excel (single_file_os ''a.csv'' [chunk [5, 6], chunk [7]])
                ''a.csv'' (Some ''out'') 2)
     = written (convert_csv_to_excel (single_file_os ''b.csv'' [chunk [5, 6], chunk [7]])
                ''b.csv'' (Some ''out'') 2)"
proof -
  let ?cs = "[chunk [5, 6], chunk [7]]"
  let ?a = "single_file_os ''a.csv'' ?cs"
  let ?b = "single_file_os ''b.csv'' ?cs"
  have h1: "path_exists ?a ''a.csv''" by (simp add: single_file_os_simps)
  have h2: "path_exists ?b ''b.csv''" by (simp add: single_file_os_simps)
  have h3: "read_csv ?a ''a.csv'' 50000 = yields ?cs" by (simp add: single_file_os_simps)
  have h4: "read_csv ?b ''b.csv'' 50000 = yields ?cs" by (simp add: single_file_os_simps)
  have h5: "list_all (\<lambda>c. columns c = [''id'']) ?cs" by (simp add: chunk_simps)
  have h6: "chosen_prefix ?a ''a.csv'' (Some ''out'') = chosen_prefix ?b ''b.csv'' (Some ''out'')"
    by (simp add: chosen_prefix_def)
  have e1: "exit_status (convert_csv_to_excel ?a ''a.csv'' (Some ''out'') 2) = 0"
    by (rule single_file_os_exit)
  have e2: "exit_status (convert_csv_to_excel ?b ''b.csv'' (Some ''out'') 2) = 0"
    by (rule single_file_os_exit)
  show ?thesis
    using h1 h2 e1 e2 same_input_same_artifacts [OF h1 h2 h3 h4 h5 h6, of 2] by blast
qed

text \<open>
  C8 as stated fails when a write fails in one run and not in the other: the same input, the
  same prefix and the same threshold, once where the directory can be written and once where
  it cannot. The first run leaves part 1, the second leaves nothing.
\<close>

theorem same_input_different_artifacts:
  "read_csv (single_file_os ''ro/data.csv'' [chunk [5, 6, 7, 8]]) ''ro/data.csv'' 50000
     = read_csv (readonly_dir_os ''ro/data.csv'' [chunk [5, 6, 7, 8]]) ''ro/data.csv'' 50000
   \<and> written (convert_csv_to_excel (single_file_os ''ro/data.csv'' [chunk [5, 6, 7, 8]])
                ''ro/data.csv'' None 3) = [(''ro/data_part1.xlsx'', chunk [5, 6, 7, 8])]
   \<and> written (convert_csv_to_excel (readonly_dir_os ''ro/data.csv'' [chunk [5, 6, 7, 8]])
                ''ro/data.csv'' None 3) = []"
proof -
  let ?os = "single_file_os ''ro/data.csv'' [chunk [5, 6, 7, 8]]"
  have h2: "read_csv ?os ''ro/data.csv'' 50000 = yields [chunk [5, 6, 7, 8]]"
    by (simp add: single_file_os_simps)
  have h3: "list_all (\<lambda>c. columns c = [''id'']) [chunk [5, 6, 7, 8]]" by (simp add: chunk_simps)
  have pre: "chosen_prefix ?os ''ro/data.csv'' None = ''ro/data''"
    by (simp add: chosen_prefix_def single_file_os_simps)
  have n: "output_filename ''ro/data'' 1 = ''ro/data_part1.xlsx''"
    by (simp add: output_filename_def str_int_def str_nat.simps digit_char_def)
  have a: "written (convert_csv_to_excel ?os ''ro/data.csv'' None 3)
             = [(''ro/data_part1.xlsx'', chunk [5, 6, 7, 8])]"
    by (simp only: run_frames_complete [OF h2 h3 single_file_os_exit] pre)
       (simp add: chunk_def n)
  have b: "written (convert_csv_to_excel (readonly_dir_os ''ro/data.csv'' [chunk [5, 6, 7, 8]])
                      ''ro/data.csv'' None 3) = []"
    by (rule readonly_dir_run) (simp add: chunk_simps)
  show ?thesis using a b by (simp add: single_file_os_simps readonly_dir_os_def)
qed

section \<open>A threshold of zero or less\<close>

lemma groups_nonpos: "P \<le> 0 \<Longrightarrow> groups P [] (yields cs) = map (\<lambda>c. [c]) cs"
  by (induction cs) simp_all

lemma write_one_single: "write_one os pre k [c] = Inr w \<Longrightarrow> snd w = c"
  by (auto simp: write_one_def pd_concat_def split: sum.splits option.splits)

lemma write_groups_single:
  "map snd (fst (write_groups os pre k (map (\<lambda>c. [c]) cs)))
     = take (length (fst (write_groups os pre k (map (\<lambda>c. [c]) cs)))) cs"
proof (induction cs arbitrary: k)
  case Nil
  then show ?case by simp
next
  case (Cons c cs)
  show ?case
  proof (cases "write_one os pre k [c]")
    case (Inl e)
    then show ?thesis by simp
  next
    case (Inr w)
    then show ?thesis using Cons.IH [of "k + 1"] write_one_single [OF Inr] by simp
  qed
qed

text \<open>
  C10, as the code has it. A \<^verbatim>\<open>--rows\<close> value of zero or less reaches the splitter
  unchanged. When the input exists and the reader delivers the chunks \<open>cs\<close>, every chunk is
  flushed on its own as soon as it is read: the calls completed write the first chunks, one
  chunk each, to the files of parts 1, 2, ... in the order of reading, and these are
  different files. The run ends with status 0 exactly when every chunk has been written, which
  is so whenever neither \<^verbatim>\<open>pd.concat\<close> nor \<^verbatim>\<open>to_excel\<close> raises.
\<close>

theorem nonpositive_rows_one_artifact_per_unit:
  assumes "r \<le> 0" and "path_exists os input_csv" and "read_csv os input_csv 50000 = yields cs"
  shows "main os input_csv (Some r) = convert_csv_to_excel os input_csv None r
         \<and> map snd (written (main os input_csv (Some r)))
           = take (length (written (main os input_csv (Some r)))) cs
         \<and> parts_on_disk (main os input_csv (Some r)) (chosen_prefix os input_csv None)
             (length (written (main os input_csv (Some r))))
           = map (\<lambda>c. Some (sheet_of c)) (take (length (written (main os input_csv (Some r)))) cs)
         \<and> card (dom (on_disk (main os input_csv (Some r))))
           = length (written (main os input_csv (Some r)))
         \<and> (exit_status (main os input_csv (Some r)) = 0)
           = (length (written (main os input_csv (Some r))) = length cs)
         \<and> ((\<forall>fs. concat_error os fs = None) \<and> (\<forall>fname df. to_excel_error os fname df = None)
              \<longrightarrow> exit_status (main os input_csv (Some r)) = 0)"
proof -
  let ?p = "convert_csv_to_excel os input_csv None r"
  let ?pre = "chosen_prefix os input_csv None"
  have m: "main os input_csv (Some r) = ?p" using assms(1) by (simp add: main_def Let_def)
  have s: "map snd (written ?p) = take (length (written ?p)) cs"
    using write_groups_single [of os ?pre 1 cs]
    by (simp only: convert_run(1) [OF assms(2)] assms(3) groups_nonpos [OF assms(1)])
  have "parts_on_disk ?p ?pre (length (written ?p))
          = map (\<lambda>w. Some (sheet_of (snd w))) (written ?p)"
    by (rule run_disk(1) [OF assms(2)])
  also have "\<dots> = map (\<lambda>c. Some (sheet_of c)) (map snd (written ?p))" by (simp add: comp_def)
  finally have d: "parts_on_disk ?p ?pre (length (written ?p))
                     = map (\<lambda>c. Some (sheet_of c)) (take (length (written ?p)) cs)"
    by (simp only: s [symmetric])
  have c: "card (dom (on_disk ?p)) = length (written ?p)" by (rule run_disk(3) [OF assms(2)])
  have e: "(exit_status ?p = 0) = (length (written ?p) = length cs)"
    using run_complete [OF assms(2,3), of None r] by (simp add: parts_nonpos [OF assms(1)])
  have n: "exit_status ?p = 0"
    if "(\<forall>fs. concat_error os fs = None) \<and> (\<forall>fname df. to_excel_error os fname df = None)"
    using that by (intro run_never_fails [OF assms(2,3)]) simp_all
  show ?thesis using s d c e n by (simp only: m) blast
qed

theorem nonpositive_rows_one_artifact_per_unit_witness:
  "(0 :: int) \<le> 0
   \<and> path_exists (single_file_os ''data.csv'' [chunk [5, 6], chunk [7], chunk [8, 9]]) ''data.csv''
   \<and> exit_status (main (single_file_os ''data.csv'' [chunk [5, 6], chunk [7], chunk [8, 9]])
                    ''data.csv'' (Some 0)) = 0
   \<and> map snd (written (main (single_file_os ''data.csv'' [chunk [5, 6], chunk [7], chunk [8, 9]])
                    ''data.csv'' (Some 0)))
       = [chunk [5, 6], chunk [7], chunk [8, 9]]"
proof -
  let ?cs = "[chunk [5, 6], chunk [7], chunk [8, 9]]"
  let ?os = "single_file_os ''data.csv'' ?cs"
  have h0: "(0 :: int) \<le> 0" by simp
  have h1: "path_exists ?os ''data.csv''" by (simp add: single_file_os_simps)
  have h2: "read_csv ?os ''data.csv'' 50000 = yields ?cs" by (simp add: single_file_os_simps)
  note t = nonpositive_rows_one_artifact_per_unit [OF h0 h1 h2]
  have ok: "(\<forall>fs. concat_error ?os fs = None) \<and> (\<forall>fname df. to_excel_error ?os fname df = None)"
    by (simp add: single_file_os_simps)
  have imp: "(\<forall>fs. concat_error ?os fs = None) \<and> (\<forall>fname df. to_excel_error ?os fname df = None)
               \<longrightarrow> exit_status (main ?os ''data.csv'' (Some 0)) = 0"
    using t by blast
  have e: "exit_status (main ?os ''data.csv'' (Some 0)) = 0" using imp ok by (rule mp)
  have iff: "(exit_status (main ?os ''data.csv'' (Some 0)) = 0)
               = (length (written (main ?os ''data.csv'' (Some 0))) = length ?cs)"
    using t by blast
  have l: "length (written (main ?os ''data.csv'' (Some 0))) = length ?cs" using iff e by simp
  have "map snd (written (main ?os ''data.csv'' (Some 0)))
          = take (length (written (main ?os ''data.csv'' (Some 0)))) ?cs"
    using t by blast
  then have "map snd (written (main ?os ''data.csv'' (Some 0))) = ?cs" by (simp only: l take_all_iff order_refl)
  then show ?thesis using h0 h1 e by blast
qed

text \<open>
  C10 as stated fails when a write fails: with \<^verbatim>\<open>--rows 0\<close> in a directory that cannot be
  written, the first flush raises, the run exits with status 1 and no chunk has become an
  artifact.
\<close>

theorem nonpositive_rows_failed_write:
  "exit_status (main (readonly_dir_os ''ro/data.csv'' [chunk [5, 6, 7, 8]])
                  ''ro/data.csv'' (Some 0)) = 1
   \<and> written (main (readonly_dir_os ''ro/data.csv'' [chunk [5, 6, 7, 8]])
                  ''ro/data.csv'' (Some 0)) = []"
  by (simp add: main_def Let_def readonly_dir_run)

section \<open>Further properties\<close>

text \<open>
  The file names of one run are pairwise distinct, whatever the reader and the writer do: no
  \<^verbatim>\<open>to_excel\<close> call replaces the file of an earlier one, and the files on disk are as
  many as the calls completed.
\<close>

theorem artifact_names_distinct:
  assumes "path_exists os input_csv"
  shows "distinct (map fst (written (convert_csv_to_excel os input_csv pa P)))
         \<and> card (dom (on_disk (convert_csv_to_excel os input_csv pa P)))
           = length (written (convert_csv_to_excel os input_csv pa P))"
  using run_names(2) [OF assms] run_disk(3) [OF assms] by blast

theorem artifact_names_distinct_witness:
  "path_exists (single_file_os ''data.csv'' [chunk [5, 6], chunk [7], chunk [8]]) ''data.csv''
   \<and> distinct (map fst (written (convert_csv_to_excel
         (single_file_os ''data.csv'' [chunk [5, 6], chunk [7], chunk [8]]) ''data.csv'' None 1)))"
proof -
  let ?os = "single_file_os ''data.csv'' [chunk [5, 6], chunk [7], chunk [8]]"
  have h1: "path_exists ?os ''data.csv''" by (simp add: single_file_os_simps)
  show ?thesis using h1 artifact_names_distinct [OF h1, of None 1] by blast
qed

lemma end_error_raises: "end_error (yields_then_raises cs e) = Some e"
  by (induction cs) simp_all

lemma groups_raises_prefix:
  "\<exists>rest. groups P buf (yields cs) = groups P buf (yields_then_raises cs e) @ rest"
  by (induction cs arbitrary: buf) simp_all

lemma write_groups_append:
  "\<exists>more. fst (write_groups os pre k (gs @ rest)) = fst (write_groups os pre k gs) @ more"
proof (induction gs arbitrary: k)
  case Nil
  then show ?case by simp
next
  case (Cons g gs)
  show ?case
  proof (cases "write_one os pre k g")
    case (Inl e)
    then show ?thesis by simp
  next
    case (Inr w)
    then show ?thesis using Cons.IH [of "k + 1"] by simp
  qed
qed

lemma pd_concat_read_csv: "pd_concat (os\<lparr>read_csv := rd\<rparr>) g = pd_concat os g"
  by (cases g) (simp_all add: pd_concat_def Let_def split: option.splits)

lemma write_one_read_csv: "write_one (os\<lparr>read_csv := rd\<rparr>) pre k g = write_one os pre k g"
  by (simp add: write_one_def pd_concat_read_csv split: sum.splits option.splits)

lemma write_groups_read_csv:
  "write_groups (os\<lparr>read_csv := rd\<rparr>) pre k gs = write_groups os pre k gs"
  by (induction gs arbitrary: k) (simp_all add: write_one_read_csv split: sum.splits)

text \<open>
  When the reader fails after delivering the chunks \<open>cs\<close>, the run exits with status 1. The
  calls completed before the failure stay: they are the first calls of the run in which the
  reader ends normally after \<open>cs\<close>. The rows still in the buffer are not written.
\<close>

theorem reader_failure_exits_1:
  assumes "path_exists os input_csv"
    and "read_csv os input_csv 50000 = yields_then_raises cs e"
  shows "exit_status (convert_csv_to_excel os input_csv pa P) = 1
         \<and> (\<exists>rest. written (convert_csv_to_excel (os\<lparr>read_csv := \<lambda>p n. yields cs\<rparr>) input_csv pa P)
               = written (convert_csv_to_excel os input_csv pa P) @ rest)"
proof -
  let ?pre = "chosen_prefix os input_csv pa"
  let ?ok = "os\<lparr>read_csv := \<lambda>p n. yields cs\<rparr>"
  have "first_error os ?pre P (yields_then_raises cs e) \<noteq> None"
    by (simp add: first_error_def end_error_raises split: option.splits)
  then have st: "exit_status (convert_csv_to_excel os input_csv pa P) = 1"
    by (simp add: convert_run(3) [OF assms(1)] assms(2))
  have o1: "path_exists ?ok input_csv" using assms(1) by simp
  have o3: "chosen_prefix ?ok input_csv pa = ?pre"
    by (simp add: chosen_prefix_def split: option.splits)
  obtain rest where g: "groups P [] (yields cs) = groups P [] (yields_then_raises cs e) @ rest"
    using groups_raises_prefix [of P "[]" cs e] by blast
  obtain more where "fst (write_groups os ?pre 1 (groups P [] (yields_then_raises cs e) @ rest))
      = fst (write_groups os ?pre 1 (groups P [] (yields_then_raises cs e))) @ more"
    using write_groups_append [of os ?pre 1 "groups P [] (yields_then_raises cs e)" rest]
    by blast
  then have "written (convert_csv_to_excel ?ok input_csv pa P)
               = written (convert_csv_to_excel os input_csv pa P) @ more"
    by (simp add: convert_run(1) [OF o1] convert_run(1) [OF assms(1)] assms(2) o3
        write_groups_read_csv g)
  then show ?thesis using st by blast
qed

theorem reader_failure_exits_1_witness:
  "path_exists (single_file_os ''data.csv'' []
       \<lparr>read_csv := \<lambda>p n. yields_then_raises [chunk [5, 6], chunk [7]] ''boom''\<rparr>) ''data.csv''
   \<and> exit_status (convert_csv_to_excel
        (single_file_os ''data.csv'' []
           \<lparr>read_csv := \<lambda>p n. yields_then_raises [chunk [5, 6], chunk [7]] ''boom''\<rparr>)
        ''data.csv'' None 2) = 1"
proof -
  let ?os = "single_file_os ''data.csv'' []
               \<lparr>read_csv := \<lambda>p n. yields_then_raises [chunk [5, 6], chunk [7]] ''boom''\<rparr>"
  have h1: "path_exists ?os ''data.csv''" by (simp add: single_file_os_simps)
  have h2: "read_csv ?os ''data.csv'' 50000 = yields_then_raises [chunk [5, 6], chunk [7]] ''boom''"
    by simp
  show ?thesis using h1 reader_failure_exits_1 [OF h1 h2, of None 2] by blast
qed

text \<open>
  A run on an existing input ends with status 0 or 1; when it ends with status 1, its last
  line is the handler's message, and when it ends with status 0, its last line is the
  success message.
\<close>

theorem exit_status_and_last_line:
  assumes "path_exists os input_csv"
  shows "(exit_status (convert_csv_to_excel os input_csv pa P) = 0
            \<and> last (printed (convert_csv_to_excel os input_csv pa P))
                = ''All conversions successful!'')
         \<or> (exit_status (convert_csv_to_excel os input_csv pa P) = 1
            \<and> (\<exists>e. last (printed (convert_csv_to_excel os input_csv pa P))
                = ''An error occurred: '' @ e))"
  using assms
  by (auto simp: convert_csv_to_excel_def except_handler_def Let_def
      split: prod.splits option.splits)

theorem exit_status_and_last_line_witness:
  "path_exists (single_file_os ''data.csv'' [chunk [5, 6], chunk [7]]) ''data.csv''
   \<and> exit_status (convert_csv_to_excel (single_file_os ''data.csv'' [chunk [5, 6], chunk [7]])
                    ''data.csv'' None 2) = 0
   \<and> last (printed (convert_csv_to_excel (single_file_os ''data.csv'' [chunk [5, 6], chunk [7]])
                    ''data.csv'' None 2)) = ''All conversions successful!''"
proof -
  let ?os = "single_file_os ''data.csv'' [chunk [5, 6], chunk [7]]"
  have h1: "path_exists ?os ''data.csv''" by (simp add: single_file_os_simps)
  have e: "exit_status (convert_csv_to_excel ?os ''data.csv'' None 2) = 0"
    by (rule single_file_os_exit)
  show ?thesis using h1 e exit_status_and_last_line [OF h1, of None 2] by auto
qed

end
